theory Spec2Isabelle
  imports
    Complex_Main
    "HOL-Library.Char_ord"
    "HOL-Library.List_Lexorder"
    "HOL-Library.Multiset"
    "HOL-Library.Sublist"
begin

section \<open>Python values used by the CSV pipeline\<close>

text \<open>
  The program of \<^verbatim>\<open>src/main.py\<close> works on rows read by \<^verbatim>\<open>csv.DictReader\<close>:
  dictionaries from column names to cells, a cell being a \<^verbatim>\<open>str\<close> or \<^verbatim>\<open>None\<close>.
  Exceptions are values of the type \<open>error\<close>; every function that may raise returns
  \<open>error + 'a\<close>, with \<open>Inl\<close> for the exception.

  All exceptions the program raises itself are \<^verbatim>\<open>ValueError\<close>s that differ in their
  message; \<open>value_error\<close> keeps them apart.
\<close>

datatype value_error =
    CouldNotConvert
  | UnknownOperator string
  | UnknownAggregation string
  | OrderByFormat
  | Unpack
  | EmptySequence

datatype error =
    KeyError string
  | TypeError
  | ValueError value_error
  | ZeroDivisionError
  | StatisticsError
  | InputError

text \<open>
  A Python \<^verbatim>\<open>float\<close>: a finite value, one of the two infinities, or not-a-number. The
  two zeros of IEEE 754 are one value here: they compare equal, and the program only
  compares floats and adds and divides them.
\<close>

datatype pyfloat = Fin real | PInf | NInf | NaN

fun float_lt :: "pyfloat \<Rightarrow> pyfloat \<Rightarrow> bool" where
  "float_lt NaN _ = False"
| "float_lt _ NaN = False"
| "float_lt (Fin a) (Fin b) = (a < b)"
| "float_lt (Fin a) PInf = True"
| "float_lt (Fin a) NInf = False"
| "float_lt NInf NInf = False"
| "float_lt NInf _ = True"
| "float_lt PInf _ = False"

fun float_eq :: "pyfloat \<Rightarrow> pyfloat \<Rightarrow> bool" where
  "float_eq NaN _ = False"
| "float_eq _ NaN = False"
| "float_eq a b = (a = b)"

datatype pyval = PyNone | PyStr string | PyFloat pyfloat

text \<open>
  The comparison operators of Python 3 on the values above: floats compare by value,
  strings lexicographically by character code, and \<^verbatim>\<open><\<close> or \<^verbatim>\<open>>\<close> between a float and
  a string, or with \<^verbatim>\<open>None\<close> on either side, raises \<^verbatim>\<open>TypeError\<close>. \<^verbatim>\<open>==\<close> never raises.
\<close>

fun py_lt :: "pyval \<Rightarrow> pyval \<Rightarrow> error + bool" where
  "py_lt (PyFloat a) (PyFloat b) = Inr (float_lt a b)"
| "py_lt (PyStr s) (PyStr t) = Inr (s < t)"
| "py_lt _ _ = Inl TypeError"

definition py_gt :: "pyval \<Rightarrow> pyval \<Rightarrow> error + bool" where
  "py_gt a b = py_lt b a"

fun py_eq :: "pyval \<Rightarrow> pyval \<Rightarrow> bool" where
  "py_eq (PyFloat a) (PyFloat b) = float_eq a b"
| "py_eq (PyStr s) (PyStr t) = (s = t)"
| "py_eq PyNone PyNone = True"
| "py_eq _ _ = False"

text \<open>
  The builtin \<^verbatim>\<open>float(x)\<close>. What it does on a string (the grammar of float literals and
  the rounding to a double) is not code of this program: it is the parameter \<open>pf\<close> of
  every function below, \<open>None\<close> standing for the \<^verbatim>\<open>ValueError\<close> of a string that is not
  a number. \<^verbatim>\<open>float(None)\<close> raises \<^verbatim>\<open>TypeError\<close>.
\<close>

type_synonym float_parser = "string \<Rightarrow> pyfloat option"

fun py_float :: "float_parser \<Rightarrow> pyval \<Rightarrow> error + pyfloat" where
  "py_float pf PyNone = Inl TypeError"
| "py_float pf (PyStr s) =
     (case pf s of None \<Rightarrow> Inl (ValueError CouldNotConvert) | Some x \<Rightarrow> Inr x)"
| "py_float pf (PyFloat x) = Inr x"

text \<open>
  A row is a dictionary; \<open>row[column]\<close> raises \<^verbatim>\<open>KeyError\<close> on a missing column.
\<close>

type_synonym row = "(string \<times> pyval) list"

definition getitem :: "row \<Rightarrow> string \<Rightarrow> error + pyval" where
  "getitem r c = (case map_of r c of None \<Rightarrow> Inl (KeyError c) | Some v \<Rightarrow> Inr v)"

text \<open>
  A parser for plain decimal numerals: the instance of \<open>pf\<close> at which the concrete
  examples below are evaluated. On the strings of these examples it is what \<^verbatim>\<open>float\<close>
  does: \<^verbatim>\<open>"100"\<close> is the float 100, and \<^verbatim>\<open>"A"\<close>, \<^verbatim>\<open>"N/A"\<close> and the empty string are not
  numbers.
\<close>

definition is_digit :: "char \<Rightarrow> bool" where
  "is_digit c = (CHR ''0'' \<le> c \<and> c \<le> CHR ''9'')"

definition digit_val :: "char \<Rightarrow> nat" where
  "digit_val c = of_char c - of_char CHR ''0''"

definition float_dec :: float_parser where
  "float_dec s =
     (if s \<noteq> [] \<and> list_all is_digit s
      then Some (Fin (real (foldl (\<lambda>n c. 10 * n + digit_val c) 0 s)))
      else None)"

section \<open>RowFilter and FilterCommand\<close>

record RowFilter =
  filter_column :: string
  filter_op :: string
  filter_value :: string

text \<open>\<^verbatim>\<open>RowFilter.__init__\<close> stores its three arguments; \<^verbatim>\<open>FilterFactory.create\<close> calls it.\<close>

definition RowFilter_init :: "string \<Rightarrow> string \<Rightarrow> string \<Rightarrow> error + RowFilter" where
  "RowFilter_init column oper val =
     Inr \<lparr>filter_column = column, filter_op = oper, filter_value = val\<rparr>"

definition FilterFactory_create :: "string \<Rightarrow> string \<Rightarrow> string \<Rightarrow> error + RowFilter" where
  "FilterFactory_create column oper val = RowFilter_init column oper val"

text \<open>
  \<^verbatim>\<open>RowFilter.match\<close>: both conversions are inside one \<^verbatim>\<open>try\<close>, whose handler catches
  \<^verbatim>\<open>ValueError\<close> only and then compares the cell and the literal as they are.
\<close>

definition RowFilter_match :: "float_parser \<Rightarrow> RowFilter \<Rightarrow> row \<Rightarrow> error + bool" where
  "RowFilter_match pf f r =
     (case getitem r (filter_column f) of
        Inl e \<Rightarrow> Inl e
      | Inr cell \<Rightarrow>
        (case
           (case py_float pf cell of
              Inl (ValueError _) \<Rightarrow> Inr (cell, PyStr (filter_value f))
            | Inl e \<Rightarrow> Inl e
            | Inr cell_val \<Rightarrow>
              (case py_float pf (PyStr (filter_value f)) of
                 Inl (ValueError _) \<Rightarrow> Inr (cell, PyStr (filter_value f))
               | Inl e \<Rightarrow> Inl e
               | Inr value_val \<Rightarrow> Inr (PyFloat cell_val, PyFloat value_val)))
         of
           Inl e \<Rightarrow> Inl e
         | Inr (cell_val, value_val) \<Rightarrow>
             if filter_op f = ''>'' then py_gt cell_val value_val
             else if filter_op f = ''<'' then py_lt cell_val value_val
             else if filter_op f = ''='' then Inr (py_eq cell_val value_val)
             else Inl (ValueError (UnknownOperator (filter_op f)))))"

text \<open>
  \<^verbatim>\<open>FilterCommand.execute\<close>: the list comprehension calls \<^verbatim>\<open>match\<close> on the rows in order
  and the first exception ends it.
\<close>

fun FilterCommand_execute :: "float_parser \<Rightarrow> RowFilter \<Rightarrow> row list \<Rightarrow> error + row list" where
  "FilterCommand_execute pf f [] = Inr []"
| "FilterCommand_execute pf f (r # rs) =
     (case RowFilter_match pf f r of
        Inl e \<Rightarrow> Inl e
      | Inr b \<Rightarrow>
        (case FilterCommand_execute pf f rs of
           Inl e \<Rightarrow> Inl e
         | Inr out \<Rightarrow> Inr (if b then r # out else out)))"

section \<open>OrderByCommand\<close>

text \<open>
  The builtin \<^verbatim>\<open>sorted\<close> is a stable sort that compares with \<^verbatim>\<open><\<close> only and passes on
  the exception of a comparison. It is modelled by a stable insertion sort: the elements
  are taken from left to right, each one is put before the first element that it is
  smaller than, so behind every element it is not smaller than. Where \<^verbatim>\<open><\<close> orders the
  keys totally (all strings, or all floats with no not-a-number among them), the result
  of a stable sort is determined and this is it; with a not-a-number among the keys the
  order that CPython returns depends on how it merges and need not be this one. With
  \<^verbatim>\<open>reverse=True\<close> the list is reversed before and after the sort, which keeps the input
  order of equal keys.
\<close>

fun insert_sorted :: "('a \<Rightarrow> 'a \<Rightarrow> error + bool) \<Rightarrow> 'a \<Rightarrow> 'a list \<Rightarrow> error + 'a list" where
  "insert_sorted lt x [] = Inr [x]"
| "insert_sorted lt x (y # ys) =
     (case lt x y of
        Inl e \<Rightarrow> Inl e
      | Inr True \<Rightarrow> Inr (x # y # ys)
      | Inr False \<Rightarrow>
        (case insert_sorted lt x ys of Inl e \<Rightarrow> Inl e | Inr zs \<Rightarrow> Inr (y # zs)))"

fun sort_into :: "('a \<Rightarrow> 'a \<Rightarrow> error + bool) \<Rightarrow> 'a list \<Rightarrow> 'a list \<Rightarrow> error + 'a list" where
  "sort_into lt acc [] = Inr acc"
| "sort_into lt acc (x # xs) =
     (case insert_sorted lt x acc of Inl e \<Rightarrow> Inl e | Inr acc' \<Rightarrow> sort_into lt acc' xs)"

definition py_sorted :: "('a \<Rightarrow> 'a \<Rightarrow> error + bool) \<Rightarrow> bool \<Rightarrow> 'a list \<Rightarrow> error + 'a list" where
  "py_sorted lt reverse xs =
     (case sort_into lt [] (if reverse then rev xs else xs) of
        Inl e \<Rightarrow> Inl e
      | Inr ys \<Rightarrow> Inr (if reverse then rev ys else ys))"

text \<open>
  \<^verbatim>\<open>key_func\<close> of \<^verbatim>\<open>OrderByCommand.execute\<close>: the float of the cell, or the cell itself when
  \<^verbatim>\<open>float\<close> raises \<^verbatim>\<open>ValueError\<close> or \<^verbatim>\<open>TypeError\<close>.
\<close>

definition key_func :: "float_parser \<Rightarrow> string \<Rightarrow> row \<Rightarrow> error + pyval" where
  "key_func pf column r =
     (case getitem r column of
        Inl e \<Rightarrow> Inl e
      | Inr val \<Rightarrow>
        (case py_float pf val of
           Inr x \<Rightarrow> Inr (PyFloat x)
         | Inl (ValueError _) \<Rightarrow> Inr val
         | Inl TypeError \<Rightarrow> Inr val
         | Inl e \<Rightarrow> Inl e))"

text \<open>
  \<^verbatim>\<open>sorted(rows, key=key_func, reverse=...)\<close> computes the key of every row first, in
  order, then sorts the rows by comparing their keys.
\<close>

fun compute_keys :: "('a \<Rightarrow> error + pyval) \<Rightarrow> 'a list \<Rightarrow> error + (pyval \<times> 'a) list" where
  "compute_keys kf [] = Inr []"
| "compute_keys kf (r # rs) =
     (case kf r of
        Inl e \<Rightarrow> Inl e
      | Inr k \<Rightarrow>
        (case compute_keys kf rs of Inl e \<Rightarrow> Inl e | Inr ks \<Rightarrow> Inr ((k, r) # ks)))"

definition key_lt :: "pyval \<times> 'a \<Rightarrow> pyval \<times> 'a \<Rightarrow> error + bool" where
  "key_lt a b = py_lt (fst a) (fst b)"

definition OrderByCommand_execute :: "float_parser \<Rightarrow> string \<Rightarrow> bool \<Rightarrow> row list \<Rightarrow> error + row list" where
  "OrderByCommand_execute pf column reverse rows =
     (case compute_keys (key_func pf column) rows of
        Inl e \<Rightarrow> Inl e
      | Inr keyed \<Rightarrow>
        (case py_sorted key_lt reverse keyed of
           Inl e \<Rightarrow> Inl e
         | Inr s \<Rightarrow> Inr (map snd s)))"

section \<open>Aggregation strategies\<close>

text \<open>
  Float arithmetic: the sum or quotient of two finite floats is the exact result rounded
  to a double. The rounding (to nearest, to an infinity on overflow) is the parameter
  \<open>rnd\<close>; the theorems say on which values they need it to be exact. Division by zero
  raises \<^verbatim>\<open>ZeroDivisionError\<close>, before anything else is looked at.
\<close>

type_synonym rounding = "real \<Rightarrow> pyfloat"

fun float_add :: "rounding \<Rightarrow> pyfloat \<Rightarrow> pyfloat \<Rightarrow> pyfloat" where
  "float_add rnd NaN _ = NaN"
| "float_add rnd _ NaN = NaN"
| "float_add rnd (Fin a) (Fin b) = rnd (a + b)"
| "float_add rnd PInf NInf = NaN"
| "float_add rnd NInf PInf = NaN"
| "float_add rnd PInf _ = PInf"
| "float_add rnd _ PInf = PInf"
| "float_add rnd NInf _ = NInf"
| "float_add rnd _ NInf = NInf"

fun float_div :: "rounding \<Rightarrow> pyfloat \<Rightarrow> pyfloat \<Rightarrow> error + pyfloat" where
  "float_div rnd a (Fin b) =
     (if b = 0 then Inl ZeroDivisionError
      else Inr (case a of
                  Fin x \<Rightarrow> rnd (x / b)
                | PInf \<Rightarrow> (if 0 < b then PInf else NInf)
                | NInf \<Rightarrow> (if 0 < b then NInf else PInf)
                | NaN \<Rightarrow> NaN))"
| "float_div rnd (Fin x) PInf = Inr (Fin 0)"
| "float_div rnd (Fin x) NInf = Inr (Fin 0)"
| "float_div rnd _ _ = Inr NaN"

definition float_of_nat :: "rounding \<Rightarrow> nat \<Rightarrow> pyfloat" where
  "float_of_nat rnd n = rnd (real n)"

text \<open>The rounding is exact on \<open>x\<close>: \<open>x\<close> is a double.\<close>

definition exact :: "rounding \<Rightarrow> real \<Rightarrow> bool" where
  "exact rnd x = (rnd x = Fin x)"

text \<open>
  The builtins \<^verbatim>\<open>sum\<close>, \<^verbatim>\<open>min\<close> and \<^verbatim>\<open>max\<close> on a list of floats. \<^verbatim>\<open>sum\<close> starts from
  the integer 0 and adds from left to right, rounding each partial sum (CPython 3.12 and
  later carry a correction term along; the two results are the same whenever every
  partial sum is exact, which is where the theorems below use \<open>py_sum\<close>). \<^verbatim>\<open>min\<close> and
  \<^verbatim>\<open>max\<close> keep the first item and replace it by a later one that is smaller (greater);
  on an empty list they raise \<^verbatim>\<open>ValueError\<close>.
\<close>

definition py_sum :: "rounding \<Rightarrow> pyfloat list \<Rightarrow> pyfloat" where
  "py_sum rnd vs = foldl (float_add rnd) (Fin 0) vs"

fun py_min :: "pyfloat list \<Rightarrow> error + pyfloat" where
  "py_min [] = Inl (ValueError EmptySequence)"
| "py_min (v # vs) = Inr (foldl (\<lambda>cur x. if float_lt x cur then x else cur) v vs)"

fun py_max :: "pyfloat list \<Rightarrow> error + pyfloat" where
  "py_max [] = Inl (ValueError EmptySequence)"
| "py_max (v # vs) = Inr (foldl (\<lambda>cur x. if float_lt cur x then x else cur) v vs)"

text \<open>
  \<^verbatim>\<open>statistics.median\<close>: sorts, then takes the middle item, or the mean of the two middle
  items of a list of even length. As the sort, it is what Python computes on lists
  without a not-a-number.
\<close>

definition py_median :: "rounding \<Rightarrow> pyfloat list \<Rightarrow> error + pyfloat" where
  "py_median rnd vs =
     (case py_sorted (\<lambda>a b. Inr (float_lt a b)) False vs of
        Inl e \<Rightarrow> Inl e
      | Inr data \<Rightarrow>
          let n = length data in
          if n = 0 then Inl StatisticsError
          else if n mod 2 = 1 then Inr (data ! (n div 2))
          else float_div rnd (float_add rnd (data ! (n div 2 - 1)) (data ! (n div 2)))
                 (float_of_nat rnd 2))"

definition AvgAggregation_aggregate :: "rounding \<Rightarrow> pyfloat list \<Rightarrow> error + pyfloat" where
  "AvgAggregation_aggregate rnd vs =
     (if vs \<noteq> [] then float_div rnd (py_sum rnd vs) (float_of_nat rnd (length vs))
      else Inr NaN)"

definition MinAggregation_aggregate :: "pyfloat list \<Rightarrow> error + pyfloat" where
  "MinAggregation_aggregate vs = (if vs \<noteq> [] then py_min vs else Inr NaN)"

definition MaxAggregation_aggregate :: "pyfloat list \<Rightarrow> error + pyfloat" where
  "MaxAggregation_aggregate vs = (if vs \<noteq> [] then py_max vs else Inr NaN)"

definition MedianAggregation_aggregate :: "rounding \<Rightarrow> pyfloat list \<Rightarrow> error + pyfloat" where
  "MedianAggregation_aggregate rnd vs = (if vs \<noteq> [] then py_median rnd vs else Inr NaN)"

text \<open>The four classes that implement \<^verbatim>\<open>IAggregationStrategy\<close>, and the call of their method.\<close>

datatype strategy = AvgAggregation | MinAggregation | MaxAggregation | MedianAggregation

fun strategy_aggregate :: "rounding \<Rightarrow> strategy \<Rightarrow> pyfloat list \<Rightarrow> error + pyfloat" where
  "strategy_aggregate rnd AvgAggregation vs = AvgAggregation_aggregate rnd vs"
| "strategy_aggregate rnd MinAggregation vs = MinAggregation_aggregate vs"
| "strategy_aggregate rnd MaxAggregation vs = MaxAggregation_aggregate vs"
| "strategy_aggregate rnd MedianAggregation vs = MedianAggregation_aggregate rnd vs"

definition strategies :: "(string \<times> strategy) list" where
  "strategies =
     [(''avg'', AvgAggregation), (''min'', MinAggregation),
      (''max'', MaxAggregation), (''median'', MedianAggregation)]"

definition AggregationStrategyFactory_get :: "string \<Rightarrow> error + strategy" where
  "AggregationStrategyFactory_get name =
     (case map_of strategies name of
        None \<Rightarrow> Inl (ValueError (UnknownAggregation name))
      | Some s \<Rightarrow> Inr s)"

section \<open>DictAggregator\<close>

record DictAggregator =
  agg_column :: string
  agg_strategy :: strategy

text \<open>
  The list comprehension of \<^verbatim>\<open>DictAggregator.aggregate\<close>: for each row in order, the test
  \<^verbatim>\<open>row[column] not in (None, "")\<close>, then \<^verbatim>\<open>float(row[column])\<close> when it holds.
\<close>

fun collect_values :: "float_parser \<Rightarrow> string \<Rightarrow> row list \<Rightarrow> error + pyfloat list" where
  "collect_values pf column [] = Inr []"
| "collect_values pf column (r # rs) =
     (case getitem r column of
        Inl e \<Rightarrow> Inl e
      | Inr cell \<Rightarrow>
          if \<not> (py_eq cell PyNone \<or> py_eq cell (PyStr []))
          then (case py_float pf cell of
                  Inl e \<Rightarrow> Inl e
                | Inr v \<Rightarrow>
                  (case collect_values pf column rs of
                     Inl e \<Rightarrow> Inl e
                   | Inr vs \<Rightarrow> Inr (v # vs)))
          else collect_values pf column rs)"

definition DictAggregator_aggregate ::
  "float_parser \<Rightarrow> rounding \<Rightarrow> DictAggregator \<Rightarrow> row list \<Rightarrow> error + pyfloat option" where
  "DictAggregator_aggregate pf rnd agg rows =
     (case collect_values pf (agg_column agg) rows of
        Inl e \<Rightarrow> Inl e
      | Inr vals \<Rightarrow>
          if vals = [] then Inr None
          else (case strategy_aggregate rnd (agg_strategy agg) vals of
                  Inl e \<Rightarrow> Inl e
                | Inr x \<Rightarrow> Inr (Some x)))"

definition AggregatorFactory_create :: "string \<Rightarrow> string \<Rightarrow> error + DictAggregator" where
  "AggregatorFactory_create column func =
     (case AggregationStrategyFactory_get func of
        Inl e \<Rightarrow> Inl e
      | Inr s \<Rightarrow> Inr \<lparr>agg_column = column, agg_strategy = s\<rparr>)"

section \<open>Commands and the application\<close>

text \<open>
  What a run writes: a call of the printer with a row collection, or the one-cell table
  that \<^verbatim>\<open>AggregateCommand.execute\<close> prints, headed by the name of the function.
\<close>

datatype event = PrintTable "row list" | PrintAggregate string "pyfloat option"

datatype command =
    FilterCommand RowFilter
  | OrderByCommand string bool
  | AggregateCommand DictAggregator string string

definition FilterCommand_init :: "string \<Rightarrow> string \<Rightarrow> string \<Rightarrow> error + command" where
  "FilterCommand_init column oper val =
     (case FilterFactory_create column oper val of
        Inl e \<Rightarrow> Inl e
      | Inr f \<Rightarrow> Inr (FilterCommand f))"

definition AggregateCommand_execute ::
  "float_parser \<Rightarrow> rounding \<Rightarrow> DictAggregator \<Rightarrow> string \<Rightarrow> row list \<Rightarrow> event list \<times> (error + row list)" where
  "AggregateCommand_execute pf rnd agg func rows =
     (case DictAggregator_aggregate pf rnd agg rows of
        Inl e \<Rightarrow> ([], Inl e)
      | Inr result \<Rightarrow> ([PrintAggregate func result], Inr rows))"

fun execute :: "float_parser \<Rightarrow> rounding \<Rightarrow> command \<Rightarrow> row list \<Rightarrow> event list \<times> (error + row list)" where
  "execute pf rnd (FilterCommand f) rows = ([], FilterCommand_execute pf f rows)"
| "execute pf rnd (OrderByCommand column reverse) rows =
     ([], OrderByCommand_execute pf column reverse rows)"
| "execute pf rnd (AggregateCommand agg column func) rows =
     AggregateCommand_execute pf rnd agg func rows"

text \<open>The loop \<^verbatim>\<open>for cmd in commands: rows = cmd.execute(rows)\<close>.\<close>

fun run_commands ::
  "float_parser \<Rightarrow> rounding \<Rightarrow> command list \<Rightarrow> row list \<Rightarrow> event list \<times> (error + row list)" where
  "run_commands pf rnd [] rows = ([], Inr rows)"
| "run_commands pf rnd (cmd # cmds) rows =
     (case execute pf rnd cmd rows of
        (out, Inl e) \<Rightarrow> (out, Inl e)
      | (out, Inr rows') \<Rightarrow>
          (case run_commands pf rnd cmds rows' of (out', res) \<Rightarrow> (out @ out', res)))"

text \<open>
  The parsed arguments: \<^verbatim>\<open>where\<close> and \<^verbatim>\<open>aggregate\<close> are lists (of three and of two
  strings after \<^verbatim>\<open>ArgsParser.parse\<close>) or \<^verbatim>\<open>None\<close>, \<^verbatim>\<open>order_by\<close> is a string or \<^verbatim>\<open>None\<close>.
  \<^verbatim>\<open>if args.x:\<close> holds for a value that is neither \<^verbatim>\<open>None\<close> nor empty.
\<close>

record args =
  args_file :: string
  args_where :: "string list option"
  args_order_by :: "string option"
  args_aggregate :: "string list option"

definition truthy :: "'a list option \<Rightarrow> bool" where
  "truthy x = (case x of None \<Rightarrow> False | Some l \<Rightarrow> l \<noteq> [])"

fun split_on :: "char \<Rightarrow> string \<Rightarrow> string list" where
  "split_on c [] = [[]]"
| "split_on c (x # xs) =
     (if x = c then [] # split_on c xs
      else (case split_on c xs of w # ws \<Rightarrow> (x # w) # ws | [] \<Rightarrow> [[x]]))"

definition char_lower :: "char \<Rightarrow> char" where
  "char_lower c =
     (if CHR ''A'' \<le> c \<and> c \<le> CHR ''Z'' then char_of (of_char c + (32::nat)) else c)"

text \<open>
  The first part of \<^verbatim>\<open>CsvApp.run\<close>: the list of commands is built, filter first, then
  order-by, then aggregate, before any of them is executed.
\<close>

definition build_filter :: "args \<Rightarrow> error + command list" where
  "build_filter a =
     (if truthy (args_where a) then
        (case the (args_where a) of
           [column, oper, val] \<Rightarrow>
             (case FilterCommand_init column oper val of
                Inl e \<Rightarrow> Inl e
              | Inr c \<Rightarrow> Inr [c])
         | _ \<Rightarrow> Inl (ValueError Unpack))
      else Inr [])"

definition build_order_by :: "args \<Rightarrow> error + command list" where
  "build_order_by a =
     (if truthy (args_order_by a) then
        (if CHR ''='' \<notin> set (the (args_order_by a)) then Inl (ValueError OrderByFormat)
         else (case split_on CHR ''='' (the (args_order_by a)) of
                 [column, direction] \<Rightarrow>
                   Inr [OrderByCommand column (map char_lower direction = ''desc'')]
               | _ \<Rightarrow> Inl (ValueError Unpack)))
      else Inr [])"

definition build_aggregate :: "args \<Rightarrow> error + command list" where
  "build_aggregate a =
     (if truthy (args_aggregate a) then
        (case the (args_aggregate a) of
           [column, func] \<Rightarrow>
             (case AggregatorFactory_create column func of
                Inl e \<Rightarrow> Inl e
              | Inr agg \<Rightarrow> Inr [AggregateCommand agg column func])
         | _ \<Rightarrow> Inl (ValueError Unpack))
      else Inr [])"

definition build_commands :: "args \<Rightarrow> error + command list" where
  "build_commands a =
     (case build_filter a of
        Inl e \<Rightarrow> Inl e
      | Inr c1 \<Rightarrow>
        (case build_order_by a of
           Inl e \<Rightarrow> Inl e
         | Inr c2 \<Rightarrow>
           (case build_aggregate a of
              Inl e \<Rightarrow> Inl e
            | Inr c3 \<Rightarrow> Inr (c1 @ c2 @ c3))))"

text \<open>
  \<^verbatim>\<open>CsvApp.run\<close>, with the reader as a function from the path to the rows or an error.
  The result is what was written and the exception that ended the run, if any.
\<close>

definition CsvApp_run ::
  "float_parser \<Rightarrow> rounding \<Rightarrow> (string \<Rightarrow> error + row list) \<Rightarrow> args \<Rightarrow> event list \<times> error option" where
  "CsvApp_run pf rnd reader a =
     (case reader (args_file a) of
        Inl e \<Rightarrow> ([], Some e)
      | Inr rows \<Rightarrow>
        (case build_commands a of
           Inl e \<Rightarrow> ([], Some e)
         | Inr commands \<Rightarrow>
           (case run_commands pf rnd commands rows of
              (out, Inl e) \<Rightarrow> (out, Some e)
            | (out, Inr rows') \<Rightarrow>
                if \<not> truthy (args_aggregate a) then (out @ [PrintTable rows'], None)
                else (out, None))))"

section \<open>The rows of the test suite\<close>

definition DATA :: "row list" where
  "DATA = [[(''brand'', PyStr ''A''), (''price'', PyStr ''100'')],
           [(''brand'', PyStr ''B''), (''price'', PyStr ''200'')],
           [(''brand'', PyStr ''C''), (''price'', PyStr ''300'')],
           [(''brand'', PyStr ''A''), (''price'', PyStr ''400'')]]"

section \<open>Properties of the filter\<close>

lemma float_dec_simps:
  "float_dec ''A'' = None" "float_dec ''B'' = None" "float_dec ''C'' = None"
  "float_dec ''100'' = Some (Fin 100)" "float_dec ''200'' = Some (Fin 200)"
  "float_dec ''300'' = Some (Fin 300)" "float_dec ''400'' = Some (Fin 400)"
  "float_dec ''150'' = Some (Fin 150)"
  "float_dec ''N/A'' = None" "float_dec [] = None"
  by (simp_all add: float_dec_def is_digit_def digit_val_def)

text \<open>
  Claim C1. For a row whose cell in the filter's column is a string, and an operator among
  \<^verbatim>\<open>>\<close>, \<^verbatim>\<open><\<close>, \<^verbatim>\<open>=\<close>: when the cell and the literal both parse as floats, \<^verbatim>\<open>match\<close> returns
  the comparison of the two floats; when either does not parse, it returns the comparison
  of the two strings, \<^verbatim>\<open>=\<close> being equality and \<^verbatim>\<open>>\<close>, \<^verbatim>\<open><\<close> the lexicographic order. This
  holds for every behaviour \<open>pf\<close> of \<^verbatim>\<open>float\<close> on strings.
\<close>

theorem match_numeric_or_string:
  assumes "map_of r col = Some (PyStr cell)"
    and "oper \<in> {''>'', ''<'', ''=''}"
  shows "(\<forall>a b. pf cell = Some a \<and> pf lit = Some b \<longrightarrow>
            RowFilter_match pf \<lparr>filter_column = col, filter_op = oper, filter_value = lit\<rparr> r =
              Inr (if oper = ''>'' then float_lt b a
                   else if oper = ''<'' then float_lt a b
                   else float_eq a b))
       \<and> (pf cell = None \<or> pf lit = None \<longrightarrow>
            RowFilter_match pf \<lparr>filter_column = col, filter_op = oper, filter_value = lit\<rparr> r =
              Inr (if oper = ''>'' then lit < cell
                   else if oper = ''<'' then cell < lit
                   else cell = lit))"
  using assms
  by (auto simp: RowFilter_match_def getitem_def py_gt_def split: option.splits)

theorem match_numeric_or_string_witness:
  "RowFilter_match float_dec \<lparr>filter_column = ''price'', filter_op = ''>'', filter_value = ''150''\<rparr>
      [(''brand'', PyStr ''B''), (''price'', PyStr ''200'')] = Inr True
   \<and> RowFilter_match float_dec \<lparr>filter_column = ''brand'', filter_op = ''<'', filter_value = ''B''\<rparr>
      [(''brand'', PyStr ''A''), (''price'', PyStr ''100'')] = Inr True"
  using match_numeric_or_string [of "[(''brand'', PyStr ''B''), (''price'', PyStr ''200'')]"
          "''price''" "''200''" "''>''" float_dec "''150''"]
     match_numeric_or_string [of "[(''brand'', PyStr ''A''), (''price'', PyStr ''100'')]"
          "''brand''" "''A''" "''<''" float_dec "''B''"]
  by (simp add: float_dec_simps)

lemma FilterCommand_execute_ok:
  "(\<forall>r\<in>set rows. \<exists>b. RowFilter_match pf f r = Inr b) \<Longrightarrow>
     FilterCommand_execute pf f rows = Inr (filter (\<lambda>r. RowFilter_match pf f r = Inr True) rows)"
  by (induction rows) auto

lemma FilterCommand_execute_Inr:
  "FilterCommand_execute pf f rows = Inr out \<Longrightarrow>
     (\<forall>r\<in>set rows. \<exists>b. RowFilter_match pf f r = Inr b)"
  by (induction rows arbitrary: out) (auto split: sum.splits)

text \<open>
  Claim C9. \<^verbatim>\<open>FilterCommand.execute\<close> returns exactly the rows on which \<^verbatim>\<open>match\<close> returns
  true, in their input order, as a subsequence of the input: nothing is duplicated,
  reordered or added. It returns whenever \<^verbatim>\<open>match\<close> raises on no row, and only then.
\<close>

theorem filter_command_subsequence:
  "((\<forall>r\<in>set rows. \<exists>b. RowFilter_match pf f r = Inr b) \<longrightarrow>
      FilterCommand_execute pf f rows =
        Inr (filter (\<lambda>r. RowFilter_match pf f r = Inr True) rows))
   \<and> (\<forall>out. FilterCommand_execute pf f rows = Inr out \<longrightarrow>
        out = filter (\<lambda>r. RowFilter_match pf f r = Inr True) rows
        \<and> subseq out rows
        \<and> (\<forall>r\<in>set rows. \<exists>b. RowFilter_match pf f r = Inr b))"
proof (intro conjI impI allI)
  assume "\<forall>r\<in>set rows. \<exists>b. RowFilter_match pf f r = Inr b"
  then show "FilterCommand_execute pf f rows =
        Inr (filter (\<lambda>r. RowFilter_match pf f r = Inr True) rows)"
    by (rule FilterCommand_execute_ok)
next
  fix out
  assume run: "FilterCommand_execute pf f rows = Inr out"
  then show all: "\<forall>r\<in>set rows. \<exists>b. RowFilter_match pf f r = Inr b"
    by (rule FilterCommand_execute_Inr)
  with run show eq: "out = filter (\<lambda>r. RowFilter_match pf f r = Inr True) rows"
    by (simp add: FilterCommand_execute_ok)
  then show "subseq out rows"
    by simp
qed

lemma match_brand_A:
  "RowFilter_match float_dec \<lparr>filter_column = ''brand'', filter_op = ''='', filter_value = ''A''\<rparr>
     [(''brand'', PyStr b), (''price'', PyStr p)] = Inr (b = ''A'')"
  by (cases "float_dec b") (simp_all add: RowFilter_match_def getitem_def float_dec_simps)

theorem filter_command_subsequence_witness:
  "FilterCommand_execute float_dec
      \<lparr>filter_column = ''brand'', filter_op = ''='', filter_value = ''A''\<rparr> DATA =
     Inr [[(''brand'', PyStr ''A''), (''price'', PyStr ''100'')],
          [(''brand'', PyStr ''A''), (''price'', PyStr ''400'')]]
   \<and> subseq [[(''brand'', PyStr ''A''), (''price'', PyStr ''100'')],
          [(''brand'', PyStr ''A''), (''price'', PyStr ''400'')]] DATA"
  using filter_command_subsequence [of DATA float_dec
      "\<lparr>filter_column = ''brand'', filter_op = ''='', filter_value = ''A''\<rparr>"]
  by (simp add: DATA_def match_brand_A)

text \<open>
  Claim C3, as stated, fails: \<^verbatim>\<open>RowFilter.__init__\<close> and \<^verbatim>\<open>FilterFactory.create\<close> store the
  operator without looking at it, so a filter with the operator \<^verbatim>\<open>!\<close> is built, and
  \<^verbatim>\<open>FilterCommand.execute\<close> with it returns the empty collection for the empty input
  without any error.
\<close>

theorem construction_validates_operator_counterexample:
  "FilterFactory_create ''price'' ''!'' ''100'' =
     Inr \<lparr>filter_column = ''price'', filter_op = ''!'', filter_value = ''100''\<rparr>
   \<and> FilterCommand_execute float_dec
       \<lparr>filter_column = ''price'', filter_op = ''!'', filter_value = ''100''\<rparr> [] = Inr []"
  by (simp add: FilterFactory_create_def RowFilter_init_def)

lemma match_unknown_operator:
  assumes "oper \<notin> {''>'', ''<'', ''=''}"
  shows "\<exists>e. RowFilter_match pf \<lparr>filter_column = col, filter_op = oper, filter_value = lit\<rparr> r = Inl e"
  using assms
  by (auto simp: RowFilter_match_def split: sum.splits error.splits prod.splits)

text \<open>
  Claim C3, amended. An operator outside \<^verbatim>\<open>>\<close>, \<^verbatim>\<open><\<close>, \<^verbatim>\<open>=\<close> is accepted when the filter is
  constructed and rejected at match time only: \<^verbatim>\<open>match\<close> raises on every row, with the
  unknown-operator \<^verbatim>\<open>ValueError\<close> on every row that has the column with a cell other than
  \<^verbatim>\<open>None\<close>. So \<^verbatim>\<open>FilterCommand.execute\<close> raises on every non-empty row collection, and
  returns the empty collection for the empty one.
\<close>

theorem operator_checked_at_match_only:
  assumes "oper \<notin> {''>'', ''<'', ''=''}"
  shows "FilterFactory_create col oper lit =
           Inr \<lparr>filter_column = col, filter_op = oper, filter_value = lit\<rparr>
       \<and> (\<forall>r. \<exists>e. RowFilter_match pf
              \<lparr>filter_column = col, filter_op = oper, filter_value = lit\<rparr> r = Inl e)
       \<and> (\<forall>r v. map_of r col = Some v \<and> v \<noteq> PyNone \<longrightarrow>
             RowFilter_match pf \<lparr>filter_column = col, filter_op = oper, filter_value = lit\<rparr> r =
               Inl (ValueError (UnknownOperator oper)))
       \<and> (\<forall>rows. rows \<noteq> [] \<longrightarrow> (\<exists>e. FilterCommand_execute pf
              \<lparr>filter_column = col, filter_op = oper, filter_value = lit\<rparr> rows = Inl e))
       \<and> FilterCommand_execute pf
              \<lparr>filter_column = col, filter_op = oper, filter_value = lit\<rparr> [] = Inr []"
proof (intro conjI allI impI)
  show "FilterFactory_create col oper lit =
           Inr \<lparr>filter_column = col, filter_op = oper, filter_value = lit\<rparr>"
    by (simp add: FilterFactory_create_def RowFilter_init_def)
next
  fix r
  show "\<exists>e. RowFilter_match pf \<lparr>filter_column = col, filter_op = oper, filter_value = lit\<rparr> r = Inl e"
    using assms by (rule match_unknown_operator)
next
  fix r v
  assume "map_of r col = Some v \<and> v \<noteq> PyNone"
  then show "RowFilter_match pf \<lparr>filter_column = col, filter_op = oper, filter_value = lit\<rparr> r =
               Inl (ValueError (UnknownOperator oper))"
    using assms
    by (cases v; cases "pf lit")
       (auto simp: RowFilter_match_def getitem_def split: option.splits)
next
  fix rows :: "row list"
  assume "rows \<noteq> []"
  then obtain r rs where rows: "rows = r # rs" by (cases rows) auto
  from match_unknown_operator [OF assms, of pf col lit r]
  show "\<exists>e. FilterCommand_execute pf
              \<lparr>filter_column = col, filter_op = oper, filter_value = lit\<rparr> rows = Inl e"
    by (auto simp: rows)
next
  show "FilterCommand_execute pf
              \<lparr>filter_column = col, filter_op = oper, filter_value = lit\<rparr> [] = Inr []"
    by simp
qed

theorem operator_checked_at_match_only_witness:
  "FilterFactory_create ''price'' ''!'' ''100'' =
           Inr \<lparr>filter_column = ''price'', filter_op = ''!'', filter_value = ''100''\<rparr>
   \<and> RowFilter_match float_dec \<lparr>filter_column = ''price'', filter_op = ''!'', filter_value = ''100''\<rparr>
        [(''price'', PyStr ''100'')] = Inl (ValueError (UnknownOperator ''!''))
   \<and> (\<exists>e. FilterCommand_execute float_dec
        \<lparr>filter_column = ''price'', filter_op = ''!'', filter_value = ''100''\<rparr>
        [[(''price'', PyStr ''100'')]] = Inl e)"
  using operator_checked_at_match_only [of "''!''" "''price''" "''100''" float_dec]
  by simp

section \<open>Properties of the sort\<close>

lemma float_lt_asym: "float_lt a b \<Longrightarrow> \<not> float_lt b a"
  by (cases a; cases b) auto

lemma float_lt_trans: "float_lt a b \<Longrightarrow> float_lt b c \<Longrightarrow> float_lt a c"
  by (cases a; cases b; cases c) auto

lemma py_lt_asym: "py_lt x y = Inr True \<Longrightarrow> py_lt y x = Inr False"
  by (cases x; cases y) (auto dest: float_lt_asym)

lemma py_lt_step: "py_lt x y = Inr True \<Longrightarrow> py_lt w y = Inr False \<Longrightarrow> py_lt w x = Inr False"
  by (cases x; cases y; cases w) (auto dest: float_lt_trans)

lemma insert_sorted_nondesc:
  assumes asym: "\<And>a b. lt a b = Inr True \<Longrightarrow> lt b a = Inr False"
    and step: "\<And>a b c. lt a b = Inr True \<Longrightarrow> lt c b = Inr False \<Longrightarrow> lt c a = Inr False"
  shows "sorted_wrt (\<lambda>a b. lt b a = Inr False) acc \<Longrightarrow> insert_sorted lt x acc = Inr zs \<Longrightarrow>
         sorted_wrt (\<lambda>a b. lt b a = Inr False) zs \<and> set zs = insert x (set acc)"
proof (induction acc arbitrary: zs)
  case Nil
  then show ?case by auto
next
  case (Cons y ys)
  show ?case
  proof (cases "lt x y")
    case (Inl e)
    with Cons.prems show ?thesis by simp
  next
    case (Inr b)
    show ?thesis
    proof (cases b)
      case True
      with Inr Cons.prems have zs: "zs = x # y # ys" by simp
      have "lt w x = Inr False" if "w \<in> set (y # ys)" for w
      proof (cases "w = y")
        case True
        with Inr \<open>b\<close> asym show ?thesis by simp
      next
        case False
        with that Cons.prems(1) have "lt w y = Inr False" by auto
        moreover from Inr \<open>b\<close> have "lt x y = Inr True" by simp
        ultimately show ?thesis using step by blast
      qed
      with Cons.prems(1) show ?thesis unfolding zs by auto
    next
      case False
      with Inr Cons.prems obtain zs' where
        ins: "insert_sorted lt x ys = Inr zs'" and zs: "zs = y # zs'"
        by (auto split: sum.splits)
      from Cons.prems(1) have "sorted_wrt (\<lambda>a b. lt b a = Inr False) ys" by simp
      from Cons.IH [OF this ins]
      have ih: "sorted_wrt (\<lambda>a b. lt b a = Inr False) zs'" "set zs' = insert x (set ys)"
        by simp_all
      with Cons.prems(1) Inr False show ?thesis unfolding zs by auto
    qed
  qed
qed

lemma insert_sorted_mset:
  "insert_sorted lt x acc = Inr zs \<Longrightarrow> mset zs = add_mset x (mset acc)"
  by (induction acc arbitrary: zs) (auto split: sum.splits bool.splits)

lemma insert_sorted_last:
  "\<forall>y\<in>set acc. lt x y = Inr False \<Longrightarrow> insert_sorted lt x acc = Inr (acc @ [x])"
  by (induction acc) auto

lemma insert_sorted_filter:
  assumes asym: "\<And>a b. lt a b = Inr True \<Longrightarrow> lt b a = Inr False"
    and cong: "\<And>a b c. P a \<Longrightarrow> P b \<Longrightarrow> lt a c = lt b c"
  shows "sorted_wrt (\<lambda>a b. lt b a = Inr False) acc \<Longrightarrow> insert_sorted lt x acc = Inr zs \<Longrightarrow>
         filter P zs = filter P (acc @ [x])"
proof (induction acc arbitrary: zs)
  case Nil
  then show ?case by auto
next
  case (Cons y ys)
  show ?case
  proof (cases "lt x y")
    case (Inl e)
    with Cons.prems show ?thesis by simp
  next
    case (Inr b)
    show ?thesis
    proof (cases b)
      case True
      with Inr Cons.prems have zs: "zs = x # y # ys" by simp
      show ?thesis
      proof (cases "P x")
        case False
        then show ?thesis by (simp add: zs)
      next
        case Px: True
        have "\<not> P w" if "w \<in> set (y # ys)" for w
        proof
          assume "P w"
          with Px cong have eq: "lt w y = lt x y" by blast
          show False
          proof (cases "w = y")
            case True
            with eq Inr \<open>b\<close> asym [of y y] show False by simp
          next
            case False
            with that Cons.prems(1) have "lt w y = Inr False" by auto
            with eq Inr \<open>b\<close> show False by simp
          qed
        qed
        then have "\<not> P y" and "filter P ys = []"
          by (simp_all add: filter_empty_conv)
        with Px show ?thesis by (simp add: zs)
      qed
    next
      case False
      with Inr Cons.prems obtain zs' where
        ins: "insert_sorted lt x ys = Inr zs'" and zs: "zs = y # zs'"
        by (auto split: sum.splits)
      from Cons.prems(1) have "sorted_wrt (\<lambda>a b. lt b a = Inr False) ys" by simp
      from Cons.IH [OF this ins] show ?thesis by (simp add: zs)
    qed
  qed
qed


lemma sort_into_nondesc:
  assumes asym: "\<And>a b. lt a b = Inr True \<Longrightarrow> lt b a = Inr False"
    and step: "\<And>a b c. lt a b = Inr True \<Longrightarrow> lt c b = Inr False \<Longrightarrow> lt c a = Inr False"
  shows "sorted_wrt (\<lambda>a b. lt b a = Inr False) acc \<Longrightarrow> sort_into lt acc xs = Inr ys \<Longrightarrow>
         sorted_wrt (\<lambda>a b. lt b a = Inr False) ys"
proof (induction xs arbitrary: acc)
  case Nil
  then show ?case by simp
next
  case (Cons x xs)
  from Cons.prems(2) obtain acc' where
    ins: "insert_sorted lt x acc = Inr acc'" and rest: "sort_into lt acc' xs = Inr ys"
    by (auto split: sum.splits)
  from insert_sorted_nondesc [of lt, OF asym step Cons.prems(1) ins]
  have "sorted_wrt (\<lambda>a b. lt b a = Inr False) acc'" by simp
  from Cons.IH [OF this rest] show ?case .
qed

lemma sort_into_mset:
  "sort_into lt acc xs = Inr ys \<Longrightarrow> mset ys = mset acc + mset xs"
proof (induction xs arbitrary: acc)
  case Nil
  then show ?case by simp
next
  case (Cons x xs)
  from Cons.prems obtain acc' where
    ins: "insert_sorted lt x acc = Inr acc'" and rest: "sort_into lt acc' xs = Inr ys"
    by (auto split: sum.splits)
  from Cons.IH [OF rest] insert_sorted_mset [OF ins] show ?case by simp
qed

lemma sort_into_filter:
  assumes asym: "\<And>a b. lt a b = Inr True \<Longrightarrow> lt b a = Inr False"
    and step: "\<And>a b c. lt a b = Inr True \<Longrightarrow> lt c b = Inr False \<Longrightarrow> lt c a = Inr False"
    and cong: "\<And>a b c. P a \<Longrightarrow> P b \<Longrightarrow> lt a c = lt b c"
  shows "sorted_wrt (\<lambda>a b. lt b a = Inr False) acc \<Longrightarrow> sort_into lt acc xs = Inr ys \<Longrightarrow>
         filter P ys = filter P (acc @ xs)"
proof (induction xs arbitrary: acc)
  case Nil
  then show ?case by simp
next
  case (Cons x xs)
  from Cons.prems(2) obtain acc' where
    ins: "insert_sorted lt x acc = Inr acc'" and rest: "sort_into lt acc' xs = Inr ys"
    by (auto split: sum.splits)
  from insert_sorted_nondesc [of lt, OF asym step Cons.prems(1) ins]
  have nd: "sorted_wrt (\<lambda>a b. lt b a = Inr False) acc'" by simp
  have "filter P acc' = filter P (acc @ [x])"
    using asym cong Cons.prems(1) ins by (rule insert_sorted_filter [of lt P])
  with Cons.IH [OF nd rest] show ?case by simp
qed

lemma sort_into_sorted_input:
  "sorted_wrt (\<lambda>a b. lt b a = Inr False) (acc @ xs) \<Longrightarrow> sort_into lt acc xs = Inr (acc @ xs)"
proof (induction xs arbitrary: acc)
  case Nil
  then show ?case by simp
next
  case (Cons x xs)
  from Cons.prems have "\<forall>y\<in>set acc. lt x y = Inr False"
    by (auto simp: sorted_wrt_append)
  then have ins: "insert_sorted lt x acc = Inr (acc @ [x])"
    by (rule insert_sorted_last)
  from Cons.prems have "sorted_wrt (\<lambda>a b. lt b a = Inr False) ((acc @ [x]) @ xs)" by simp
  from Cons.IH [OF this] ins show ?case by simp
qed

lemma key_lt_asym: "key_lt a b = Inr True \<Longrightarrow> key_lt b a = Inr False"
  unfolding key_lt_def by (rule py_lt_asym)

lemma key_lt_step: "key_lt a b = Inr True \<Longrightarrow> key_lt c b = Inr False \<Longrightarrow> key_lt c a = Inr False"
  unfolding key_lt_def by (rule py_lt_step)

lemma py_sorted_idem:
  assumes "py_sorted key_lt rv xs = Inr ys"
  shows "py_sorted key_lt rv ys = Inr ys"
proof -
  from assms obtain s where s: "sort_into key_lt [] (if rv then rev xs else xs) = Inr s"
    and ys: "ys = (if rv then rev s else s)"
    by (auto simp: py_sorted_def split: sum.splits)
  have "sorted_wrt (\<lambda>a b. key_lt b a = Inr False) s"
    by (rule sort_into_nondesc [OF key_lt_asym key_lt_step _ s]) simp_all
  then have "sort_into key_lt [] s = Inr s"
    using sort_into_sorted_input [of key_lt "[]" s] by simp
  then show ?thesis by (simp add: py_sorted_def ys)
qed

lemma py_sorted_mset:
  "py_sorted lt rv xs = Inr ys \<Longrightarrow> mset ys = mset xs"
  by (auto simp: py_sorted_def split: sum.splits if_splits dest!: sort_into_mset)

lemma py_sorted_stable:
  assumes "py_sorted key_lt rv xs = Inr ys"
  shows "filter (\<lambda>p. fst p = k) ys = filter (\<lambda>p. fst p = k) xs"
proof -
  from assms obtain s where s: "sort_into key_lt [] (if rv then rev xs else xs) = Inr s"
    and ys: "ys = (if rv then rev s else s)"
    by (auto simp: py_sorted_def split: sum.splits)
  have "filter (\<lambda>p. fst p = k) s = filter (\<lambda>p. fst p = k) ([] @ (if rv then rev xs else xs))"
    by (rule sort_into_filter [OF key_lt_asym key_lt_step _ _ s]) (simp_all add: key_lt_def)
  then have eq: "filter (\<lambda>p. fst p = k) s = filter (\<lambda>p. fst p = k) (if rv then rev xs else xs)"
    by simp
  show ?thesis
  proof (cases rv)
    case True
    with eq have "rev (filter (\<lambda>p. fst p = k) s) = rev (filter (\<lambda>p. fst p = k) (rev xs))"
      by simp
    then show ?thesis by (simp add: ys True rev_filter)
  next
    case False
    with eq show ?thesis by (simp add: ys)
  qed
qed

lemma compute_keys_Inr:
  "compute_keys kf rows = Inr keyed \<Longrightarrow>
     map snd keyed = rows \<and> (\<forall>p\<in>set keyed. kf (snd p) = Inr (fst p))"
  by (induction rows arbitrary: keyed) (auto split: sum.splits)

lemma compute_keys_again:
  "\<forall>p\<in>set s. kf (snd p) = Inr (fst p) \<Longrightarrow> compute_keys kf (map snd s) = Inr s"
  by (induction s) auto

lemma OrderByCommand_execute_idem:
  assumes "OrderByCommand_execute pf c rv rows = Inr out"
  shows "OrderByCommand_execute pf c rv out = Inr out"
proof -
  from assms obtain keyed s where
    keyed: "compute_keys (key_func pf c) rows = Inr keyed"
    and s: "py_sorted key_lt rv keyed = Inr s" and out: "out = map snd s"
    by (auto simp: OrderByCommand_execute_def split: sum.splits)
  from py_sorted_mset [OF s] have "set s = set keyed" by (rule mset_eq_setD)
  with compute_keys_Inr [OF keyed] have "\<forall>p\<in>set s. key_func pf c (snd p) = Inr (fst p)"
    by simp
  then have "compute_keys (key_func pf c) out = Inr s"
    unfolding out by (rule compute_keys_again)
  with py_sorted_idem [OF s] show ?thesis
    by (simp add: OrderByCommand_execute_def out)
qed

lemma OrderByCommand_execute_stable:
  assumes "OrderByCommand_execute pf c rv rows = Inr out"
  shows "filter (\<lambda>r. key_func pf c r = Inr k) out = filter (\<lambda>r. key_func pf c r = Inr k) rows"
proof -
  from assms obtain keyed s where
    keyed: "compute_keys (key_func pf c) rows = Inr keyed"
    and s: "py_sorted key_lt rv keyed = Inr s" and out: "out = map snd s"
    by (auto simp: OrderByCommand_execute_def split: sum.splits)
  from py_sorted_mset [OF s] have set: "set s = set keyed" by (rule mset_eq_setD)
  from compute_keys_Inr [OF keyed]
  have rows: "map snd keyed = rows" and keys: "\<forall>p\<in>set keyed. key_func pf c (snd p) = Inr (fst p)"
    by simp_all
  have keyed_filter: "filter (\<lambda>r. key_func pf c r = Inr k) (map snd ps) =
        map snd (filter (\<lambda>p. fst p = k) ps)" if "set ps = set keyed" for ps
  proof -
    have "filter ((\<lambda>r. key_func pf c r = Inr k) \<circ> snd) ps = filter (\<lambda>p. fst p = k) ps"
    proof (rule filter_cong [OF refl])
      fix p assume "p \<in> set ps"
      with that keys have "key_func pf c (snd p) = Inr (fst p)" by simp
      then show "((\<lambda>r. key_func pf c r = Inr k) \<circ> snd) p = (fst p = k)" by auto
    qed
    then show ?thesis by (simp add: filter_map)
  qed
  have "filter (\<lambda>r. key_func pf c r = Inr k) (map snd s) =
        map snd (filter (\<lambda>p. fst p = k) s)"
    using set by (rule keyed_filter)
  also have "\<dots> = map snd (filter (\<lambda>p. fst p = k) keyed)"
    by (simp add: py_sorted_stable [OF s])
  also have "\<dots> = filter (\<lambda>r. key_func pf c r = Inr k) (map snd keyed)"
    by (rule keyed_filter [symmetric]) simp
  finally show ?thesis by (simp add: out rows)
qed

text \<open>
  Claim C8, for the row collections in which no sort key is the float not-a-number (the
  keys on which the insertion sort above is what \<^verbatim>\<open>sorted\<close> computes). Order-by is
  idempotent: running it on its own result gives that result again (and a run that
  raises, raises). It is stable: for every key, the rows with that key are in the result
  in the order they have in the input, with \<^verbatim>\<open>reverse\<close> set or not.
\<close>

theorem order_by_idempotent:
  assumes "\<forall>r\<in>set rows. key_func pf c r \<noteq> Inr (PyFloat NaN)"
  shows "(case OrderByCommand_execute pf c rv rows of
      Inl e \<Rightarrow> Inl e
    | Inr out \<Rightarrow> OrderByCommand_execute pf c rv out) = OrderByCommand_execute pf c rv rows
   \<and> (\<forall>out k. OrderByCommand_execute pf c rv rows = Inr out \<longrightarrow>
         filter (\<lambda>r. key_func pf c r = Inr k) out = filter (\<lambda>r. key_func pf c r = Inr k) rows)"
proof (intro conjI allI impI)
  show "(case OrderByCommand_execute pf c rv rows of
      Inl e \<Rightarrow> Inl e
    | Inr out \<Rightarrow> OrderByCommand_execute pf c rv out) = OrderByCommand_execute pf c rv rows"
    by (cases "OrderByCommand_execute pf c rv rows") (simp_all add: OrderByCommand_execute_idem)
next
  fix out k
  assume "OrderByCommand_execute pf c rv rows = Inr out"
  then show "filter (\<lambda>r. key_func pf c r = Inr k) out = filter (\<lambda>r. key_func pf c r = Inr k) rows"
    by (rule OrderByCommand_execute_stable)
qed

theorem order_by_idempotent_witness:
  "OrderByCommand_execute float_dec ''brand'' False DATA =
     Inr [[(''brand'', PyStr ''A''), (''price'', PyStr ''100'')],
          [(''brand'', PyStr ''A''), (''price'', PyStr ''400'')],
          [(''brand'', PyStr ''B''), (''price'', PyStr ''200'')],
          [(''brand'', PyStr ''C''), (''price'', PyStr ''300'')]]
   \<and> OrderByCommand_execute float_dec ''brand'' False
        [[(''brand'', PyStr ''A''), (''price'', PyStr ''100'')],
         [(''brand'', PyStr ''A''), (''price'', PyStr ''400'')],
         [(''brand'', PyStr ''B''), (''price'', PyStr ''200'')],
         [(''brand'', PyStr ''C''), (''price'', PyStr ''300'')]] =
     Inr [[(''brand'', PyStr ''A''), (''price'', PyStr ''100'')],
          [(''brand'', PyStr ''A''), (''price'', PyStr ''400'')],
          [(''brand'', PyStr ''B''), (''price'', PyStr ''200'')],
          [(''brand'', PyStr ''C''), (''price'', PyStr ''300'')]]
   \<and> filter (\<lambda>r. key_func float_dec ''brand'' r = Inr (PyStr ''A''))
        [[(''brand'', PyStr ''A''), (''price'', PyStr ''100'')],
         [(''brand'', PyStr ''A''), (''price'', PyStr ''400'')],
         [(''brand'', PyStr ''B''), (''price'', PyStr ''200'')],
         [(''brand'', PyStr ''C''), (''price'', PyStr ''300'')]] =
       filter (\<lambda>r. key_func float_dec ''brand'' r = Inr (PyStr ''A'')) DATA"
proof -
  have run: "OrderByCommand_execute float_dec ''brand'' False DATA =
     Inr [[(''brand'', PyStr ''A''), (''price'', PyStr ''100'')],
          [(''brand'', PyStr ''A''), (''price'', PyStr ''400'')],
          [(''brand'', PyStr ''B''), (''price'', PyStr ''200'')],
          [(''brand'', PyStr ''C''), (''price'', PyStr ''300'')]]"
    by (simp add: OrderByCommand_execute_def DATA_def key_func_def getitem_def float_dec_simps
        py_sorted_def key_lt_def)
  have keys: "\<forall>r\<in>set DATA. key_func float_dec ''brand'' r \<noteq> Inr (PyFloat NaN)"
    by (simp add: DATA_def key_func_def getitem_def float_dec_simps)
  from order_by_idempotent [OF keys, of False] run
  show ?thesis by simp
qed

lemma sorted_wrt_two:
  "sorted_wrt P ys \<Longrightarrow> a \<in> set ys \<Longrightarrow> b \<in> set ys \<Longrightarrow> a \<noteq> b \<Longrightarrow> P a b \<or> P b a"
  by (induction ys) auto

text \<open>
  A column with a cell that parses and a cell that is a string \<^verbatim>\<open>float\<close> rejects never
  sorts: whatever the other rows are, \<^verbatim>\<open>OrderByCommand.execute\<close> raises.
\<close>

lemma order_by_mixed_keys_raise:
  assumes "r1 \<in> set rows" and "r2 \<in> set rows"
    and k1: "key_func pf c r1 = Inr (PyFloat x)"
    and k2: "key_func pf c r2 = Inr (PyStr s)"
  shows "\<exists>e. OrderByCommand_execute pf c rv rows = Inl e"
proof (cases "OrderByCommand_execute pf c rv rows")
  case (Inl e)
  then show ?thesis by blast
next
  case (Inr out)
  then obtain keyed s0 where
    keyed: "compute_keys (key_func pf c) rows = Inr keyed"
    and s0: "sort_into key_lt [] (if rv then rev keyed else keyed) = Inr s0"
    by (auto simp: OrderByCommand_execute_def py_sorted_def split: sum.splits)
  from compute_keys_Inr [OF keyed]
  have rows: "map snd keyed = rows" and keys: "\<forall>p\<in>set keyed. key_func pf c (snd p) = Inr (fst p)"
    by simp_all
  from assms(1) rows obtain p1 where p1: "p1 \<in> set keyed" "snd p1 = r1" by auto
  from assms(2) rows obtain p2 where p2: "p2 \<in> set keyed" "snd p2 = r2" by auto
  from keys p1 k1 have f1: "fst p1 = PyFloat x" by auto
  from keys p2 k2 have f2: "fst p2 = PyStr s" by auto
  have nd: "sorted_wrt (\<lambda>a b. key_lt b a = Inr False) s0"
    by (rule sort_into_nondesc [OF key_lt_asym key_lt_step _ s0]) simp_all
  from sort_into_mset [OF s0] have "mset s0 = mset keyed"
    by (cases rv) simp_all
  then have "set s0 = set keyed" by (rule mset_eq_setD)
  with p1 p2 have "p1 \<in> set s0" "p2 \<in> set s0" by simp_all
  moreover from f1 f2 have "p1 \<noteq> p2" by auto
  ultimately have "key_lt p2 p1 = Inr False \<or> key_lt p1 p2 = Inr False"
    using sorted_wrt_two [OF nd, of p1 p2] by blast
  with f1 f2 show ?thesis by (simp add: key_lt_def)
qed

text \<open>
  Claim C2 at a column that mixes a numeric and a non-numeric cell: the keys are a float
  and a string, their comparison raises \<^verbatim>\<open>TypeError\<close>, and so does the sort. The same
  happens with two cells that are \<^verbatim>\<open>None\<close>.
\<close>

theorem order_by_mixed_column_raises:
  "OrderByCommand_execute float_dec ''price'' False
     [[(''brand'', PyStr ''A''), (''price'', PyStr ''100'')],
      [(''brand'', PyStr ''B''), (''price'', PyStr ''N/A'')]] = Inl TypeError
   \<and> key_func float_dec ''price'' [(''brand'', PyStr ''A''), (''price'', PyStr ''100'')] =
       Inr (PyFloat (Fin 100))
   \<and> key_func float_dec ''price'' [(''brand'', PyStr ''B''), (''price'', PyStr ''N/A'')] =
       Inr (PyStr ''N/A'')
   \<and> OrderByCommand_execute float_dec ''price'' False
     [[(''price'', PyNone)], [(''price'', PyNone)]] = Inl TypeError"
  by (simp add: OrderByCommand_execute_def key_func_def getitem_def float_dec_simps
      py_sorted_def key_lt_def)

section \<open>Properties of the aggregator\<close>

lemma collect_values_all_empty:
  "\<forall>r\<in>set rows. map_of r c = Some PyNone \<or> map_of r c = Some (PyStr '''') \<Longrightarrow>
     collect_values pf c rows = Inr []"
  by (induction rows) (auto simp: getitem_def)

text \<open>
  Claim C4. When every cell of the aggregation column is the empty string or \<^verbatim>\<open>None\<close>
  (in particular when there is no row), \<^verbatim>\<open>DictAggregator.aggregate\<close> returns \<^verbatim>\<open>None\<close>: it
  does not raise, and it returns no float, so neither zero nor the not-a-number of the
  strategies, whatever the strategy is.
\<close>

theorem aggregate_all_empty_absent:
  assumes "\<forall>r\<in>set rows. map_of r (agg_column agg) = Some PyNone
                        \<or> map_of r (agg_column agg) = Some (PyStr '''')"
  shows "DictAggregator_aggregate pf rnd agg rows = Inr None"
  using collect_values_all_empty [OF assms, of pf]
  by (simp add: DictAggregator_aggregate_def)

theorem aggregate_all_empty_absent_witness:
  "DictAggregator_aggregate float_dec Fin \<lparr>agg_column = ''price'', agg_strategy = AvgAggregation\<rparr>
      [[(''brand'', PyStr ''A''), (''price'', PyStr '''')],
       [(''brand'', PyStr ''B''), (''price'', PyNone)]] = Inr None
   \<and> DictAggregator_aggregate float_dec Fin \<lparr>agg_column = ''price'', agg_strategy = MinAggregation\<rparr>
      [] = Inr None"
  using aggregate_all_empty_absent [of
          "[[(''brand'', PyStr ''A''), (''price'', PyStr ''''  )],
            [(''brand'', PyStr ''B''), (''price'', PyNone)]]"
          "\<lparr>agg_column = ''price'', agg_strategy = AvgAggregation\<rparr>" float_dec Fin]
        aggregate_all_empty_absent [of "[]"
          "\<lparr>agg_column = ''price'', agg_strategy = MinAggregation\<rparr>" float_dec Fin]
  by simp

lemma collect_values_numeric:
  assumes "\<forall>r\<in>set rows. map_of r c \<noteq> None"
    and "\<forall>r\<in>set rows. \<forall>s. map_of r c = Some (PyStr s) \<and> s \<noteq> '''' \<longrightarrow> pf s \<noteq> None"
  shows "collect_values pf c rows =
           Inr (List.map_filter
                  (\<lambda>r. case map_of r c of
                          Some (PyStr s) \<Rightarrow> if s = '''' then None else pf s
                        | Some (PyFloat x) \<Rightarrow> Some x
                        | _ \<Rightarrow> None) rows)"
  using assms
proof (induction rows)
  case Nil
  then show ?case by (simp add: List.map_filter_simps)
next
  case (Cons r rows)
  from Cons.prems obtain v where v: "map_of r c = Some v" by auto
  from Cons have ih: "collect_values pf c rows =
           Inr (List.map_filter
                  (\<lambda>r. case map_of r c of
                          Some (PyStr s) \<Rightarrow> if s = '''' then None else pf s
                        | Some (PyFloat x) \<Rightarrow> Some x
                        | _ \<Rightarrow> None) rows)"
    by simp
  show ?case
  proof (cases v)
    case PyNone
    with v ih show ?thesis by (simp add: getitem_def List.map_filter_simps)
  next
    case (PyStr s)
    with Cons.prems(2) v have "s \<noteq> '''' \<Longrightarrow> pf s \<noteq> None" by simp
    with PyStr v ih show ?thesis
      by (cases "s = ''''") (auto simp: getitem_def List.map_filter_simps)
  next
    case (PyFloat x)
    with v ih show ?thesis by (simp add: getitem_def List.map_filter_simps)
  qed
qed

lemma collect_values_non_numeric:
  assumes "\<forall>r\<in>set rows. map_of r c \<noteq> None"
    and "\<exists>r\<in>set rows. \<exists>s. map_of r c = Some (PyStr s) \<and> s \<noteq> '''' \<and> pf s = None"
  shows "collect_values pf c rows = Inl (ValueError CouldNotConvert)"
  using assms
proof (induction rows)
  case Nil
  then show ?case by simp
next
  case (Cons r rows)
  from Cons.prems obtain v where v: "map_of r c = Some v" by auto
  show ?case
  proof (cases "\<exists>s. v = PyStr s \<and> s \<noteq> '''' \<and> pf s = None")
    case True
    with v show ?thesis by (auto simp: getitem_def)
  next
    case False
    with Cons.prems v
    have "\<exists>r\<in>set rows. \<exists>s. map_of r c = Some (PyStr s) \<and> s \<noteq> '''' \<and> pf s = None"
      by auto
    with Cons have ih: "collect_values pf c rows = Inl (ValueError CouldNotConvert)"
      by simp
    show ?thesis
    proof (cases v)
      case PyNone
      with v ih show ?thesis by (simp add: getitem_def)
    next
      case (PyStr s)
      with False v ih show ?thesis
        by (cases "s = ''''"; cases "pf s") (auto simp: getitem_def)
    next
      case (PyFloat x)
      with v ih show ?thesis by (simp add: getitem_def)
    qed
  qed
qed

text \<open>
  Claim C6. On rows that all have the column: the values handed to the strategy are the
  floats of the cells that are neither \<^verbatim>\<open>None\<close> nor the empty string, in row order, the
  other rows being left out; and if some cell is a non-empty string that \<^verbatim>\<open>float\<close> does
  not parse, the aggregation raises the \<^verbatim>\<open>ValueError\<close> of \<^verbatim>\<open>float\<close> instead of
  skipping the row.
\<close>

theorem aggregator_skips_empty_rejects_non_numeric:
  assumes "\<forall>r\<in>set rows. map_of r c \<noteq> None"
  shows "((\<forall>r\<in>set rows. \<forall>s. map_of r c = Some (PyStr s) \<and> s \<noteq> '''' \<longrightarrow> pf s \<noteq> None) \<longrightarrow>
            collect_values pf c rows =
              Inr (List.map_filter
                     (\<lambda>r. case map_of r c of
                             Some (PyStr s) \<Rightarrow> if s = '''' then None else pf s
                           | Some (PyFloat x) \<Rightarrow> Some x
                           | _ \<Rightarrow> None) rows))
       \<and> ((\<exists>r\<in>set rows. \<exists>s. map_of r c = Some (PyStr s) \<and> s \<noteq> '''' \<and> pf s = None) \<longrightarrow>
            collect_values pf c rows = Inl (ValueError CouldNotConvert)
            \<and> DictAggregator_aggregate pf rnd \<lparr>agg_column = c, agg_strategy = st\<rparr> rows =
                Inl (ValueError CouldNotConvert))"
  using collect_values_numeric [OF assms, of pf] collect_values_non_numeric [OF assms, of pf]
  by (auto simp: DictAggregator_aggregate_def)

theorem aggregator_skips_empty_rejects_non_numeric_witness:
  "collect_values float_dec ''price''
      [[(''price'', PyStr ''100'')], [(''price'', PyStr '''')],
       [(''price'', PyNone)], [(''price'', PyStr ''300'')]] = Inr [Fin 100, Fin 300]
   \<and> DictAggregator_aggregate float_dec Fin \<lparr>agg_column = ''price'', agg_strategy = AvgAggregation\<rparr>
      [[(''price'', PyStr ''100'')], [(''price'', PyStr ''N/A'')]] =
        Inl (ValueError CouldNotConvert)"
  using aggregator_skips_empty_rejects_non_numeric [of
          "[[(''price'', PyStr ''100'')], [(''price'', PyStr '''')],
            [(''price'', PyNone)], [(''price'', PyStr ''300'')]]" "''price''" float_dec Fin AvgAggregation]
        aggregator_skips_empty_rejects_non_numeric [of
          "[[(''price'', PyStr ''100'')], [(''price'', PyStr ''N/A'')]]" "''price''" float_dec Fin AvgAggregation]
  by (simp add: float_dec_simps List.map_filter_simps)


section \<open>Properties of the aggregation strategies\<close>

lemma foldl_min_Fin:
  "foldl (\<lambda>cur x. if float_lt x cur then x else cur) (Fin a) (map Fin xs) = Fin (fold min xs a)"
  by (induction xs arbitrary: a) (auto simp: min_def)

lemma foldl_max_Fin:
  "foldl (\<lambda>cur x. if float_lt cur x then x else cur) (Fin a) (map Fin xs) = Fin (fold max xs a)"
  by (induction xs arbitrary: a) (auto simp: max_def)

lemma py_min_Fin: "xs \<noteq> [] \<Longrightarrow> py_min (map Fin xs) = Inr (Fin (Min (set xs)))"
proof (cases xs)
  case Nil
  assume "xs \<noteq> []"
  with Nil show ?thesis by simp
next
  case (Cons a list)
  then show ?thesis using Min.set_eq_fold [of a list] by (simp add: foldl_min_Fin)
qed

lemma py_max_Fin: "xs \<noteq> [] \<Longrightarrow> py_max (map Fin xs) = Inr (Fin (Max (set xs)))"
proof (cases xs)
  case Nil
  assume "xs \<noteq> []"
  with Nil show ?thesis by simp
next
  case (Cons a list)
  then show ?thesis using Max.set_eq_fold [of a list] by (simp add: foldl_max_Fin)
qed

lemma py_sum_Fin:
  "\<forall>k\<in>{1..length xs}. exact rnd (a + sum_list (take k xs)) \<Longrightarrow>
     foldl (float_add rnd) (Fin a) (map Fin xs) = Fin (a + sum_list xs)"
proof (induction xs arbitrary: a)
  case Nil
  then show ?case by simp
next
  case (Cons x xs)
  from Cons.prems have "exact rnd (a + sum_list (take 1 (x # xs)))"
    by (metis One_nat_def Suc_leI atLeastAtMost_iff le_refl length_Cons zero_less_Suc)
  then have first: "rnd (a + x) = Fin (a + x)" by (simp add: exact_def)
  have "\<forall>k\<in>{1..length xs}. exact rnd ((a + x) + sum_list (take k xs))"
  proof
    fix k assume "k \<in> {1..length xs}"
    then have "Suc k \<in> {1..length (x # xs)}" by simp
    with Cons.prems have "exact rnd (a + sum_list (take (Suc k) (x # xs)))" by blast
    then show "exact rnd ((a + x) + sum_list (take k xs))" by (simp add: add.assoc)
  qed
  from Cons.IH [OF this] first show ?case by (simp add: add.assoc)
qed

lemma insert_sorted_total:
  "\<forall>a b. \<exists>c. lt a b = Inr c \<Longrightarrow> \<exists>zs. insert_sorted lt x acc = Inr zs"
proof (induction acc)
  case Nil
  then show ?case by simp
next
  case (Cons y ys)
  from Cons.prems obtain c where "lt x y = Inr c" by blast
  moreover from Cons obtain zs where "insert_sorted lt x ys = Inr zs" by blast
  ultimately show ?case by (cases c) simp_all
qed

lemma sort_into_total:
  "\<forall>a b. \<exists>c. lt a b = Inr c \<Longrightarrow> \<exists>ys. sort_into lt acc xs = Inr ys"
proof (induction xs arbitrary: acc)
  case Nil
  then show ?case by simp
next
  case (Cons x xs)
  from insert_sorted_total [OF Cons.prems] obtain acc' where
    "insert_sorted lt x acc = Inr acc'" by blast
  with Cons.IH [OF Cons.prems, of acc'] show ?case by simp
qed

lemma py_sorted_Fin:
  "py_sorted (\<lambda>a b. Inr (float_lt a b)) False (map Fin xs) = Inr (map Fin (sort xs))"
proof -
  let ?lt = "\<lambda>a b. (Inr (float_lt a b) :: error + bool)"
  from sort_into_total [of ?lt "[]" "map Fin xs"] obtain ys where
    ys: "sort_into ?lt [] (map Fin xs) = Inr ys" by auto
  have nd: "sorted_wrt (\<lambda>a b. ?lt b a = Inr False) ys"
  proof (rule sort_into_nondesc [of ?lt, OF _ _ _ ys])
    show "?lt a b = Inr True \<Longrightarrow> ?lt b a = Inr False" for a b
      by (auto dest: float_lt_asym)
    show "?lt a b = Inr True \<Longrightarrow> ?lt c b = Inr False \<Longrightarrow> ?lt c a = Inr False" for a b c
      by (auto dest: float_lt_trans)
    show "sorted_wrt (\<lambda>a b. ?lt b a = Inr False) []" by simp
  qed
  from sort_into_mset [OF ys] have ms: "mset ys = mset (map Fin xs)" by simp
  then have "set ys = Fin ` set xs" by (metis set_mset_mset set_map)
  then have "\<forall>y\<in>set ys. \<exists>x. y = Fin x" by auto
  then obtain zs where zs: "ys = map Fin zs" by (auto simp: ex_map_conv [symmetric])
  let ?g = "\<lambda>v. case v of Fin x \<Rightarrow> x | _ \<Rightarrow> 0"
  have unfin: "map ?g (map Fin us) = us" for us by (induction us) simp_all
  from ms have "mset (map ?g ys) = mset (map ?g (map Fin xs))"
    by (simp only: mset_map)
  then have "mset zs = mset xs"
    unfolding zs unfin .
  moreover from nd have "sorted zs"
    unfolding zs by (simp add: sorted_wrt_map sorted_wrt_iff_nth_less sorted_iff_nth_mono_less not_less)
  ultimately have "sort xs = zs" by (rule properties_for_sort)
  with ys zs show ?thesis by (simp add: py_sorted_def)
qed

lemma median_Fin:
  assumes "xs \<noteq> []"
  shows "MedianAggregation_aggregate rnd (map Fin xs) =
           (if length xs mod 2 = 1 then Inr (Fin (sort xs ! (length xs div 2)))
            else float_div rnd
                   (float_add rnd (Fin (sort xs ! (length xs div 2 - 1)))
                      (Fin (sort xs ! (length xs div 2))))
                   (float_of_nat rnd 2))"
proof -
  from assms have pos: "0 < length xs" by simp
  then have mid: "length xs div 2 < length (sort xs)" by simp
  then have mid': "length xs div 2 - 1 < length (sort xs)" by simp
  from assms mid mid' show ?thesis
    by (simp add: MedianAggregation_aggregate_def py_median_def py_sorted_Fin Let_def)
qed

lemma avg_Fin:
  assumes "xs \<noteq> []"
    and "\<forall>k\<in>{1..length xs}. exact rnd (sum_list (take k xs))"
    and "exact rnd (real (length xs))"
    and "exact rnd (sum_list xs / real (length xs))"
  shows "AvgAggregation_aggregate rnd (map Fin xs) = Inr (Fin (sum_list xs / real (length xs)))"
proof -
  from assms(2) have "\<forall>k\<in>{1..length xs}. exact rnd (0 + sum_list (take k xs))" by simp
  then have "py_sum rnd (map Fin xs) = Fin (0 + sum_list xs)"
    unfolding py_sum_def by (rule py_sum_Fin)
  with assms(1,3,4) show ?thesis
    by (simp add: AvgAggregation_aggregate_def float_of_nat_def exact_def)
qed

text \<open>
  Claim C5. On a non-empty list of finite floats: \<^verbatim>\<open>min\<close> and \<^verbatim>\<open>max\<close> return the least and
  the greatest element; \<^verbatim>\<open>median\<close> returns the middle element of the sorted list when the
  length is odd, and the mean of the two middle elements when it is even; \<^verbatim>\<open>avg\<close> returns
  the sum divided by the length. The additions and divisions of floats round; the mean
  is the exact one when the roundings involved are exact. They are on the list
  \<^verbatim>\<open>[100, 200, 300, 400]\<close> for every rounding that keeps the integers up to 1000, and
  there \<^verbatim>\<open>avg\<close> is 250, \<^verbatim>\<open>min\<close> 100, \<^verbatim>\<open>max\<close> 400 and \<^verbatim>\<open>median\<close> 250.
\<close>

theorem strategies_compute_reference:
  assumes "xs \<noteq> []"
  shows "MinAggregation_aggregate (map Fin xs) = Inr (Fin (Min (set xs)))
       \<and> MaxAggregation_aggregate (map Fin xs) = Inr (Fin (Max (set xs)))
       \<and> (odd (length xs) \<longrightarrow>
            MedianAggregation_aggregate rnd (map Fin xs) =
              Inr (Fin (sort xs ! (length xs div 2))))
       \<and> (even (length xs) \<and> exact rnd 2
            \<and> exact rnd (sort xs ! (length xs div 2 - 1) + sort xs ! (length xs div 2))
            \<and> exact rnd ((sort xs ! (length xs div 2 - 1) + sort xs ! (length xs div 2)) / 2) \<longrightarrow>
            MedianAggregation_aggregate rnd (map Fin xs) =
              Inr (Fin ((sort xs ! (length xs div 2 - 1) + sort xs ! (length xs div 2)) / 2)))
       \<and> ((\<forall>k\<in>{1..length xs}. exact rnd (sum_list (take k xs)))
            \<and> exact rnd (real (length xs))
            \<and> exact rnd (sum_list xs / real (length xs)) \<longrightarrow>
            AvgAggregation_aggregate rnd (map Fin xs) =
              Inr (Fin (sum_list xs / real (length xs))))
       \<and> ((\<forall>n::nat. n \<le> 1000 \<longrightarrow> exact rnd (real n)) \<longrightarrow>
            AvgAggregation_aggregate rnd [Fin 100, Fin 200, Fin 300, Fin 400] = Inr (Fin 250)
            \<and> MinAggregation_aggregate [Fin 100, Fin 200, Fin 300, Fin 400] = Inr (Fin 100)
            \<and> MaxAggregation_aggregate [Fin 100, Fin 200, Fin 300, Fin 400] = Inr (Fin 400)
            \<and> MedianAggregation_aggregate rnd [Fin 100, Fin 200, Fin 300, Fin 400] =
                Inr (Fin 250))"
proof (intro conjI impI)
  from assms show "MinAggregation_aggregate (map Fin xs) = Inr (Fin (Min (set xs)))"
    by (simp add: MinAggregation_aggregate_def py_min_Fin)
  from assms show "MaxAggregation_aggregate (map Fin xs) = Inr (Fin (Max (set xs)))"
    by (simp add: MaxAggregation_aggregate_def py_max_Fin)
next
  assume "odd (length xs)"
  then have "length xs mod 2 = 1" by (simp add: odd_iff_mod_2_eq_one)
  with median_Fin [OF assms, of rnd]
  show "MedianAggregation_aggregate rnd (map Fin xs) = Inr (Fin (sort xs ! (length xs div 2)))"
    by simp
next
  assume h: "even (length xs) \<and> exact rnd 2
            \<and> exact rnd (sort xs ! (length xs div 2 - 1) + sort xs ! (length xs div 2))
            \<and> exact rnd ((sort xs ! (length xs div 2 - 1) + sort xs ! (length xs div 2)) / 2)"
  then have "length xs mod 2 \<noteq> 1" by presburger
  with median_Fin [OF assms, of rnd] h
  show "MedianAggregation_aggregate rnd (map Fin xs) =
          Inr (Fin ((sort xs ! (length xs div 2 - 1) + sort xs ! (length xs div 2)) / 2))"
    by (simp add: exact_def float_of_nat_def)
next
  assume "(\<forall>k\<in>{1..length xs}. exact rnd (sum_list (take k xs)))
            \<and> exact rnd (real (length xs))
            \<and> exact rnd (sum_list xs / real (length xs))"
  with assms show "AvgAggregation_aggregate rnd (map Fin xs) =
              Inr (Fin (sum_list xs / real (length xs)))"
    by (simp add: avg_Fin)
next
  assume ints: "\<forall>n::nat. n \<le> 1000 \<longrightarrow> exact rnd (real n)"
  have ex: "rnd (real n) = Fin (real n)" if "n \<le> 1000" for n
    using ints that by (simp add: exact_def)
  have e: "rnd 2 = Fin 2" "rnd 4 = Fin 4" "rnd 100 = Fin 100" "rnd 250 = Fin 250"
    "rnd 300 = Fin 300" "rnd 500 = Fin 500" "rnd 600 = Fin 600" "rnd 1000 = Fin 1000"
    using ex [of 2] ex [of 4] ex [of 100] ex [of 250] ex [of 300] ex [of 500] ex [of 600]
      ex [of 1000]
    by simp_all
  show "AvgAggregation_aggregate rnd [Fin 100, Fin 200, Fin 300, Fin 400] = Inr (Fin 250)"
    by (simp add: AvgAggregation_aggregate_def py_sum_def float_of_nat_def e)
  show "MinAggregation_aggregate [Fin 100, Fin 200, Fin 300, Fin 400] = Inr (Fin 100)"
    by (simp add: MinAggregation_aggregate_def)
  show "MaxAggregation_aggregate [Fin 100, Fin 200, Fin 300, Fin 400] = Inr (Fin 400)"
    by (simp add: MaxAggregation_aggregate_def)
  show "MedianAggregation_aggregate rnd [Fin 100, Fin 200, Fin 300, Fin 400] = Inr (Fin 250)"
    by (simp add: MedianAggregation_aggregate_def py_median_def py_sorted_def float_of_nat_def e)
qed

theorem strategies_compute_reference_witness:
  "MinAggregation_aggregate (map Fin [100, 200, 300, 400]) = Inr (Fin 100)
   \<and> MaxAggregation_aggregate (map Fin [100, 200, 300, 400]) = Inr (Fin 400)
   \<and> MedianAggregation_aggregate Fin (map Fin [100, 200, 300, 400]) = Inr (Fin 250)
   \<and> AvgAggregation_aggregate Fin (map Fin [100, 200, 300, 400]) = Inr (Fin 250)
   \<and> MedianAggregation_aggregate Fin (map Fin [3, 1, 2]) = Inr (Fin 2)"
proof -
  have s: "sort [100, 200, 300, 400 :: real] = [100, 200, 300, 400]"
    "sort [3, 1, 2 :: real] = [1, 2, 3]"
    by simp_all
  from strategies_compute_reference [of "[100, 200, 300, 400]" Fin]
    strategies_compute_reference [of "[3, 1, 2]" Fin]
  show ?thesis
    by (simp add: s exact_def)
qed

section \<open>Properties of the application\<close>

lemma get_unknown:
  "name \<notin> {''avg'', ''min'', ''max'', ''median''} \<Longrightarrow>
     AggregationStrategyFactory_get name = Inl (ValueError (UnknownAggregation name))"
  by (simp add: AggregationStrategyFactory_get_def strategies_def)

lemma create_unknown:
  "name \<notin> {''avg'', ''min'', ''max'', ''median''} \<Longrightarrow>
     AggregatorFactory_create col name = Inl (ValueError (UnknownAggregation name))"
  by (simp add: AggregatorFactory_create_def get_unknown)

lemma build_aggregate_unknown:
  "name \<notin> {''avg'', ''min'', ''max'', ''median''} \<Longrightarrow> args_aggregate a = Some [col, name] \<Longrightarrow>
     build_aggregate a = Inl (ValueError (UnknownAggregation name))"
  by (simp add: build_aggregate_def truthy_def create_unknown)

lemma split_on_absent: "c \<notin> set d \<Longrightarrow> split_on c d = [d]"
  by (induction d) auto

lemma split_on_once:
  "c \<notin> set u \<Longrightarrow> c \<notin> set d \<Longrightarrow> split_on c (u @ c # d) = [u, d]"
  by (induction u) (auto simp: split_on_absent)

lemma build_filter_ok:
  "args_where a = None \<or> (\<exists>c oper v. args_where a = Some [c, oper, v]) \<Longrightarrow>
     \<exists>cs. build_filter a = Inr cs"
  by (auto simp: build_filter_def truthy_def FilterCommand_init_def FilterFactory_create_def
      RowFilter_init_def)

lemma build_order_by_ok:
  "args_order_by a = None
     \<or> (\<exists>c d. args_order_by a = Some (c @ CHR ''='' # d) \<and> CHR ''='' \<notin> set c \<and> CHR ''='' \<notin> set d) \<Longrightarrow>
     \<exists>cs. build_order_by a = Inr cs"
  by (auto simp: build_order_by_def truthy_def split_on_once)

text \<open>
  Claim C7. A strategy name outside \<^verbatim>\<open>avg\<close>, \<^verbatim>\<open>min\<close>, \<^verbatim>\<open>max\<close>, \<^verbatim>\<open>median\<close> is rejected by
  \<^verbatim>\<open>AggregationStrategyFactory.get\<close>, hence by \<^verbatim>\<open>AggregatorFactory.create\<close>. In \<^verbatim>\<open>CsvApp.run\<close>
  the aggregator is created while the list of commands is built: with such a name the
  run ends there, with the same exception whatever rows the reader returned, having
  written nothing and executed no command. The exception is the unknown-aggregation one
  when the \<^verbatim>\<open>where\<close> and \<^verbatim>\<open>order_by\<close> arguments are absent or well formed (a malformed one
  is reported first).
\<close>

theorem unknown_aggregation_fails_at_selection:
  assumes "name \<notin> {''avg'', ''min'', ''max'', ''median''}"
  shows "AggregationStrategyFactory_get name = Inl (ValueError (UnknownAggregation name))
       \<and> AggregatorFactory_create col name = Inl (ValueError (UnknownAggregation name))
       \<and> (args_aggregate a = Some [col, name] \<longrightarrow>
            (\<exists>e. build_commands a = Inl e
               \<and> (\<forall>pf rnd reader rows. reader (args_file a) = Inr rows \<longrightarrow>
                     CsvApp_run pf rnd reader a = ([], Some e))
               \<and> ((args_where a = None \<or> (\<exists>c oper v. args_where a = Some [c, oper, v]))
                  \<and> (args_order_by a = None
                       \<or> (\<exists>c d. args_order_by a = Some (c @ CHR ''='' # d)
                             \<and> CHR ''='' \<notin> set c \<and> CHR ''='' \<notin> set d)) \<longrightarrow>
                  e = ValueError (UnknownAggregation name))))"
proof (intro conjI impI)
  show "AggregationStrategyFactory_get name = Inl (ValueError (UnknownAggregation name))"
    using assms by (rule get_unknown)
  show "AggregatorFactory_create col name = Inl (ValueError (UnknownAggregation name))"
    using assms by (rule create_unknown)
next
  assume agg: "args_aggregate a = Some [col, name]"
  from build_aggregate_unknown [OF assms agg]
  have bad: "build_aggregate a = Inl (ValueError (UnknownAggregation name))" .
  then have "\<exists>e. build_commands a = Inl e"
    by (cases "build_filter a"; cases "build_order_by a") (simp_all add: build_commands_def)
  then obtain e where e: "build_commands a = Inl e" ..
  have run: "\<forall>pf rnd reader rows. reader (args_file a) = Inr rows \<longrightarrow>
               CsvApp_run pf rnd reader a = ([], Some e)"
    by (simp add: CsvApp_run_def e)
  have which: "e = ValueError (UnknownAggregation name)"
    if "(args_where a = None \<or> (\<exists>c oper v. args_where a = Some [c, oper, v]))
         \<and> (args_order_by a = None
              \<or> (\<exists>c d. args_order_by a = Some (c @ CHR ''='' # d)
                    \<and> CHR ''='' \<notin> set c \<and> CHR ''='' \<notin> set d))"
  proof -
    from that build_filter_ok [of a] obtain c1 where "build_filter a = Inr c1" by blast
    moreover from that build_order_by_ok [of a] obtain c2 where "build_order_by a = Inr c2"
      by blast
    ultimately show ?thesis using e bad by (simp add: build_commands_def)
  qed
  from e run which
  show "\<exists>e. build_commands a = Inl e
          \<and> (\<forall>pf rnd reader rows. reader (args_file a) = Inr rows \<longrightarrow>
                CsvApp_run pf rnd reader a = ([], Some e))
          \<and> ((args_where a = None \<or> (\<exists>c oper v. args_where a = Some [c, oper, v]))
             \<and> (args_order_by a = None
                  \<or> (\<exists>c d. args_order_by a = Some (c @ CHR ''='' # d)
                        \<and> CHR ''='' \<notin> set c \<and> CHR ''='' \<notin> set d)) \<longrightarrow>
             e = ValueError (UnknownAggregation name))"
    by blast
qed

theorem unknown_aggregation_fails_at_selection_witness:
  "AggregationStrategyFactory_get ''unknown'' = Inl (ValueError (UnknownAggregation ''unknown''))
   \<and> CsvApp_run float_dec Fin (\<lambda>p. Inr DATA)
        \<lparr>args_file = ''dummy.csv'', args_where = Some [''nocolumn'', ''>'', ''1''],
         args_order_by = Some ''brand=asc'', args_aggregate = Some [''price'', ''unknown'']\<rparr> =
       ([], Some (ValueError (UnknownAggregation ''unknown'')))"
proof -
  have "''brand=asc'' = ''brand'' @ CHR ''='' # ''asc''" by simp
  then have "\<exists>c d. ''brand=asc'' = c @ CHR ''='' # d \<and> CHR ''='' \<notin> set c \<and> CHR ''='' \<notin> set d"
    by (intro exI [of _ "''brand''"] exI [of _ "''asc''"]) simp
  with unknown_aggregation_fails_at_selection [of "''unknown''" "''price''"
      "\<lparr>args_file = ''dummy.csv'', args_where = Some [''nocolumn'', ''>'', ''1''],
         args_order_by = Some ''brand=asc'', args_aggregate = Some [''price'', ''unknown'']\<rparr>"]
  show ?thesis by auto
qed

lemma run_commands_append:
  "run_commands pf rnd (cs @ ds) rows =
     (case run_commands pf rnd cs rows of
        (out, Inl e) \<Rightarrow> (out, Inl e)
      | (out, Inr rows') \<Rightarrow>
          (case run_commands pf rnd ds rows' of (out', res) \<Rightarrow> (out @ out', res)))"
  by (induction cs arbitrary: rows) (auto split: prod.splits sum.splits)

lemma run_commands_silent:
  "\<forall>c\<in>set cs. \<forall>agg col func. c \<noteq> AggregateCommand agg col func \<Longrightarrow>
     fst (run_commands pf rnd cs rows) = []"
proof (induction cs arbitrary: rows)
  case Nil
  then show ?case by simp
next
  case (Cons c cs)
  then have silent: "fst (run_commands pf rnd cs rows') = []" for rows' by simp
  from Cons.prems have "fst (execute pf rnd c rows) = []" by (cases c) auto
  with silent show ?case
    by (auto split: prod.splits sum.splits) (metis fst_conv)+
qed

lemma build_filter_silent:
  "build_filter a = Inr cs \<Longrightarrow> \<forall>c\<in>set cs. \<forall>agg col func. c \<noteq> AggregateCommand agg col func"
  by (auto simp: build_filter_def FilterCommand_init_def
      split: if_splits list.splits sum.splits)

lemma build_order_by_silent:
  "build_order_by a = Inr cs \<Longrightarrow> \<forall>c\<in>set cs. \<forall>agg col func. c \<noteq> AggregateCommand agg col func"
  by (auto simp: build_order_by_def split: if_splits list.splits)

lemma build_aggregate_cases:
  "build_aggregate a = Inr cs \<Longrightarrow>
     (if truthy (args_aggregate a) then \<exists>agg col func. cs = [AggregateCommand agg col func]
      else cs = [])"
  by (auto simp: build_aggregate_def split: if_splits list.splits sum.splits)

lemma build_commands_shape:
  assumes "build_commands a = Inr cmds"
  shows "\<exists>pre. (\<forall>c\<in>set pre. \<forall>agg col func. c \<noteq> AggregateCommand agg col func)
           \<and> (if truthy (args_aggregate a)
               then \<exists>agg col func. cmds = pre @ [AggregateCommand agg col func]
               else cmds = pre)"
proof -
  from assms obtain c1 c2 c3 where
    c1: "build_filter a = Inr c1" and c2: "build_order_by a = Inr c2"
    and c3: "build_aggregate a = Inr c3" and cmds: "cmds = c1 @ c2 @ c3"
    by (auto simp: build_commands_def split: sum.splits)
  from build_filter_silent [OF c1] build_order_by_silent [OF c2]
  have "\<forall>c\<in>set (c1 @ c2). \<forall>agg col func. c \<noteq> AggregateCommand agg col func" by auto
  moreover from build_aggregate_cases [OF c3] cmds
  have "if truthy (args_aggregate a)
        then \<exists>agg col func. cmds = (c1 @ c2) @ [AggregateCommand agg col func]
        else cmds = c1 @ c2"
    by (auto split: if_splits)
  ultimately show ?thesis by blast
qed

lemma run_commands_outputs:
  assumes "build_commands a = Inr cmds"
    and "run_commands pf rnd cmds rows = (out, res)"
  shows "(if truthy (args_aggregate a)
          then (case res of Inl e \<Rightarrow> out = [] | Inr rows' \<Rightarrow> \<exists>func r. out = [PrintAggregate func r])
          else out = [])"
proof -
  from build_commands_shape [OF assms(1)] obtain pre where
    pre: "\<forall>c\<in>set pre. \<forall>agg col func. c \<noteq> AggregateCommand agg col func"
    and shape: "if truthy (args_aggregate a)
               then \<exists>agg col func. cmds = pre @ [AggregateCommand agg col func]
               else cmds = pre"
    by blast
  from run_commands_silent [OF pre] have silent: "fst (run_commands pf rnd pre rows) = []" .
  show ?thesis
  proof (cases "truthy (args_aggregate a)")
    case False
    with shape silent assms(2) show ?thesis by simp
  next
    case True
    with shape obtain agg col func where cmds: "cmds = pre @ [AggregateCommand agg col func]"
      by auto
    obtain o1 r1 where r1: "run_commands pf rnd pre rows = (o1, r1)" by (cases "run_commands pf rnd pre rows")
    with silent have o1: "o1 = []" by simp
    from assms(2) r1 o1 True show ?thesis
      unfolding cmds run_commands_append
      by (auto simp: AggregateCommand_execute_def split: sum.splits prod.splits)
  qed
qed

text \<open>
  Claim C10. A run that ends without an exception has written exactly one thing: when no
  aggregate was requested, the table of the rows that the commands returned, through
  the printer; when an aggregate was requested, the one value of the aggregate and no
  table. A run that raises has written nothing. \<^verbatim>\<open>AggregateCommand.execute\<close> returns the
  rows it was given.
\<close>

theorem table_printed_iff_no_aggregate:
  assumes "CsvApp_run pf rnd reader a = (out, res)"
  shows "(res = None \<and> \<not> truthy (args_aggregate a) \<longrightarrow>
            (\<exists>rows cmds rows'. reader (args_file a) = Inr rows \<and> build_commands a = Inr cmds
               \<and> run_commands pf rnd cmds rows = ([], Inr rows') \<and> out = [PrintTable rows']))
       \<and> (res = None \<and> truthy (args_aggregate a) \<longrightarrow> (\<exists>func r. out = [PrintAggregate func r]))
       \<and> (truthy (args_aggregate a) \<longrightarrow> (\<forall>t. PrintTable t \<notin> set out))
       \<and> (res \<noteq> None \<longrightarrow> out = [])
       \<and> (\<forall>agg func rows o' rows'.
             AggregateCommand_execute pf rnd agg func rows = (o', Inr rows') \<longrightarrow>
               rows' = rows \<and> (\<exists>r. o' = [PrintAggregate func r]))"
proof -
  have last: "\<forall>agg func rows o' rows'.
             AggregateCommand_execute pf rnd agg func rows = (o', Inr rows') \<longrightarrow>
               rows' = rows \<and> (\<exists>r. o' = [PrintAggregate func r])"
    by (auto simp: AggregateCommand_execute_def split: sum.splits)
  show ?thesis
  proof (cases "reader (args_file a)")
    case (Inl e)
    with assms last show ?thesis by (auto simp: CsvApp_run_def)
  next
    case rows: (Inr rows)
    show ?thesis
    proof (cases "build_commands a")
      case (Inl e)
      with assms rows last show ?thesis by (auto simp: CsvApp_run_def)
    next
      case cmds: (Inr cmds)
      obtain o1 r1 where run: "run_commands pf rnd cmds rows = (o1, r1)"
        by (cases "run_commands pf rnd cmds rows")
      from run_commands_outputs [OF cmds run]
      have outs: "if truthy (args_aggregate a)
          then (case r1 of Inl e \<Rightarrow> o1 = [] | Inr rows' \<Rightarrow> \<exists>func r. o1 = [PrintAggregate func r])
          else o1 = []" .
      show ?thesis
      proof (cases r1)
        case (Inl e)
        with assms rows cmds run outs last show ?thesis
          by (auto simp: CsvApp_run_def split: if_splits)
      next
        case (Inr rows')
        with assms rows cmds run outs last show ?thesis
          by (auto simp: CsvApp_run_def split: if_splits)
      qed
    qed
  qed
qed


theorem table_printed_iff_no_aggregate_witness:
  "CsvApp_run float_dec Fin (\<lambda>p. Inr DATA)
      \<lparr>args_file = ''dummy.csv'', args_where = None, args_order_by = None,
       args_aggregate = Some [''price'', ''avg'']\<rparr> =
     ([PrintAggregate ''avg'' (Some (Fin 250))], None)
   \<and> (\<forall>t. PrintTable t \<notin> set [PrintAggregate ''avg'' (Some (Fin 250))])
   \<and> CsvApp_run float_dec Fin (\<lambda>p. Inr DATA)
      \<lparr>args_file = ''dummy.csv'', args_where = Some [''price'', ''>'', ''150''],
       args_order_by = Some ''brand=asc'', args_aggregate = None\<rparr> =
     ([PrintTable [[(''brand'', PyStr ''A''), (''price'', PyStr ''400'')],
                   [(''brand'', PyStr ''B''), (''price'', PyStr ''200'')],
                   [(''brand'', PyStr ''C''), (''price'', PyStr ''300'')]]], None)"
proof -
  have agg: "CsvApp_run float_dec Fin (\<lambda>p. Inr DATA)
      \<lparr>args_file = ''dummy.csv'', args_where = None, args_order_by = None,
       args_aggregate = Some [''price'', ''avg'']\<rparr> =
     ([PrintAggregate ''avg'' (Some (Fin 250))], None)"
    by (simp add: CsvApp_run_def build_commands_def build_filter_def build_order_by_def
        build_aggregate_def truthy_def AggregatorFactory_create_def
        AggregationStrategyFactory_get_def strategies_def DATA_def getitem_def float_dec_simps
        AggregateCommand_execute_def DictAggregator_aggregate_def AvgAggregation_aggregate_def
        py_sum_def float_of_nat_def)
  have tab: "CsvApp_run float_dec Fin (\<lambda>p. Inr DATA)
      \<lparr>args_file = ''dummy.csv'', args_where = Some [''price'', ''>'', ''150''],
       args_order_by = Some ''brand=asc'', args_aggregate = None\<rparr> =
     ([PrintTable [[(''brand'', PyStr ''A''), (''price'', PyStr ''400'')],
                   [(''brand'', PyStr ''B''), (''price'', PyStr ''200'')],
                   [(''brand'', PyStr ''C''), (''price'', PyStr ''300'')]]], None)"
    by (simp add: CsvApp_run_def build_commands_def build_filter_def build_order_by_def
        build_aggregate_def truthy_def FilterCommand_init_def FilterFactory_create_def
        RowFilter_init_def DATA_def RowFilter_match_def getitem_def float_dec_simps py_gt_def
        OrderByCommand_execute_def key_func_def py_sorted_def key_lt_def char_lower_def)
  from table_printed_iff_no_aggregate [OF agg] table_printed_iff_no_aggregate [OF tab] agg tab
  show ?thesis by simp
qed

end
